theory Spec2Isabelle
  imports Complex_Main "HOL-Library.AList" "HOL-Library.Sublist"
begin

section \<open>Stack diffing: from two stack snapshots to START/END events\<close>

text \<open>
  The trace events of \<^verbatim>\<open>src/unnamed/part_003\<close> (interface \<^verbatim>\<open>TraceEvent\<close>) and of
  \<^verbatim>\<open>src/stack-to-trace.js\<close>. Time stamps are only copied by the diff, so their type is a
  parameter. A sample of \<^verbatim>\<open>stack-to-trace.js\<close> and \<^verbatim>\<open>srv/tracer.ts\<close> has the fields
  \<^verbatim>\<open>ts\<close> and \<^verbatim>\<open>stack\<close>; the interface \<^verbatim>\<open>Sample\<close> of \<^verbatim>\<open>part_003\<close> adds \<^verbatim>\<open>asyncId\<close>.
\<close>

datatype Kind = START | END

record 't TraceEvent =
  kind :: Kind
  ts :: 't
  name :: string

record 't StackSample =
  ts :: 't
  stack :: "string list"

record 't Sample = "'t StackSample" +
  asyncId :: int

text \<open>
  The three loops of \<^verbatim>\<open>convertSamplesToEvents\<close> (\<^verbatim>\<open>part_003\<close>, lines 157 to 183), which
  are, statement for statement, the loops of the body of \<^verbatim>\<open>convertSamplesToTrace\<close>
  (\<^verbatim>\<open>stack-to-trace.js\<close>, lines 33 to 52). Each loop is a function of its loop variable;
  the loops that push take the array \<^verbatim>\<open>events\<close> they push onto.

  \<^verbatim>\<open>while (commonLen < prevStack.length && commonLen < currStack.length &&
         prevStack[commonLen] === currStack[commonLen]) commonLen++;\<close>
\<close>

function commonLenLoop :: "string list \<Rightarrow> string list \<Rightarrow> nat \<Rightarrow> nat" where
  "commonLenLoop prevStack currStack commonLen =
     (if commonLen < length prevStack \<and> commonLen < length currStack \<and>
         prevStack ! commonLen = currStack ! commonLen
      then commonLenLoop prevStack currStack (Suc commonLen)
      else commonLen)"
  by pat_completeness auto
termination
  by (relation "measure (\<lambda>(prevStack, currStack, commonLen). length prevStack - commonLen)") auto

declare commonLenLoop.simps [simp del]

text \<open>
  \<^verbatim>\<open>for (let i = prevStack.length - 1; i >= commonLen; i--)
     events.push({ kind: 'END', ts: currentTs, name: prevStack[i] });\<close>
  The loop variable starts at \<open>-1\<close> for an empty previous stack, so it is an integer.
\<close>

function endLoop ::
  "'t \<Rightarrow> string list \<Rightarrow> nat \<Rightarrow> int \<Rightarrow> 't TraceEvent list \<Rightarrow> 't TraceEvent list" where
  "endLoop currentTs prevStack commonLen i events =
     (if i \<ge> int commonLen
      then endLoop currentTs prevStack commonLen (i - 1)
             (events @ [\<lparr>kind = END, ts = currentTs, name = prevStack ! nat i\<rparr>])
      else events)"
  by pat_completeness auto
termination
  by (relation "measure (\<lambda>(currentTs, prevStack, commonLen, i, events). nat (i + 1 - int commonLen))")
     auto

declare endLoop.simps [simp del]

text \<open>
  \<^verbatim>\<open>for (let i = commonLen; i < currStack.length; i++)
     events.push({ kind: 'START', ts: currentTs, name: currStack[i] });\<close>
\<close>

function startLoop ::
  "'t \<Rightarrow> string list \<Rightarrow> nat \<Rightarrow> 't TraceEvent list \<Rightarrow> 't TraceEvent list" where
  "startLoop currentTs currStack i events =
     (if i < length currStack
      then startLoop currentTs currStack (Suc i)
             (events @ [\<lparr>kind = START, ts = currentTs, name = currStack ! i\<rparr>])
      else events)"
  by pat_completeness auto
termination
  by (relation "measure (\<lambda>(currentTs, currStack, i, events). length currStack - i)") auto

declare startLoop.simps [simp del]

text \<open>\<^verbatim>\<open>CAPStackSamplingTracer.convertSamplesToEvents\<close> (\<^verbatim>\<open>part_003\<close>, lines 150 to 186).\<close>

definition convertSamplesToEvents ::
  "string list \<Rightarrow> string list \<Rightarrow> 't \<Rightarrow> 't TraceEvent list" where
  "convertSamplesToEvents prevStack currStack currentTs =
     (let commonLen = commonLenLoop prevStack currStack 0;
          events = endLoop currentTs prevStack commonLen (int (length prevStack) - 1) []
      in startLoop currentTs currStack commonLen events)"

text \<open>
  \<^verbatim>\<open>convertSamplesToTrace\<close> (\<^verbatim>\<open>stack-to-trace.js\<close>, lines 25 to 58): the \<^verbatim>\<open>for ... of\<close>
  loop over the samples carries \<^verbatim>\<open>prevStack\<close> and \<^verbatim>\<open>events\<close>; the function starts it
  with both empty.
\<close>

fun traceLoop ::
  "'t StackSample list \<Rightarrow> string list \<Rightarrow> 't TraceEvent list \<Rightarrow> 't TraceEvent list" where
  "traceLoop [] prevStack events = events"
| "traceLoop (sample # samples) prevStack events =
     (let currStack = stack sample;
          currentTs = StackSample.ts sample;
          commonLen = commonLenLoop prevStack currStack 0;
          events1 = endLoop currentTs prevStack commonLen (int (length prevStack) - 1) events;
          events2 = startLoop currentTs currStack commonLen events1
      in traceLoop samples currStack events2)"

definition convertSamplesToTrace :: "'t StackSample list \<Rightarrow> 't TraceEvent list" where
  "convertSamplesToTrace samples = traceLoop samples [] []"

section \<open>The trace backend\<close>

text \<open>
  Spans are created and ended through the OpenTelemetry API, which is not part of the
  repository. The tracer is modelled by the list of the spans it has started, in the order
  of their creation; a span object is its position in that list. A span records what the
  backend receives: its name, its start time, its end time once it is ended, its status and
  the parent it was started under. \<^verbatim>\<open>startSpan\<close> appends an open span;
  \<^verbatim>\<open>span.end\<close> and \<^verbatim>\<open>span.setStatus\<close> change a span that is not ended and leave an
  ended span as it is.
\<close>

datatype SpanStatusCode = UNSET | OK | ERROR

record 't Span =
  name :: string
  startTime :: 't
  endTime :: "'t option"
  status :: SpanStatusCode
  parent :: "nat option"

definition startSpan ::
  "string \<Rightarrow> 't \<Rightarrow> nat option \<Rightarrow> 't Span list \<Rightarrow> nat \<times> 't Span list" where
  "startSpan spanName t parentSpan tracer =
     (length tracer,
      tracer @ [\<lparr>name = spanName, startTime = t, endTime = None, status = UNSET,
                 parent = parentSpan\<rparr>])"

definition setStatus :: "SpanStatusCode \<Rightarrow> nat \<Rightarrow> 't Span list \<Rightarrow> 't Span list" where
  "setStatus code sp tracer =
     (if sp < length tracer \<and> endTime (tracer ! sp) = None
      then tracer[sp := (tracer ! sp)\<lparr>status := code\<rparr>]
      else tracer)"

definition endSpan :: "'t \<Rightarrow> nat \<Rightarrow> 't Span list \<Rightarrow> 't Span list" where
  "endSpan t sp tracer =
     (if sp < length tracer \<and> endTime (tracer ! sp) = None
      then tracer[sp := (tracer ! sp)\<lparr>endTime := Some t\<rparr>]
      else tracer)"

section \<open>The live sampler: \<^verbatim>\<open>CAPStackSamplingTracer\<close>\<close>

text \<open>
  The fields of the class (\<^verbatim>\<open>part_003\<close>, lines 22 to 30) that its methods read and write.
  A JavaScript \<^verbatim>\<open>Map\<close> is an association list: \<^verbatim>\<open>get\<close> is \<^const>\<open>map_of\<close>, \<^verbatim>\<open>set\<close> is
  \<^const>\<open>AList.update\<close> (a present key keeps its place, a new key goes last), \<^verbatim>\<open>delete\<close> is
  \<^const>\<open>AList.delete\<close>, and \<^verbatim>\<open>forEach\<close> runs through the list in order. The timer handle
  \<^verbatim>\<open>interval\<close> is set exactly when \<^verbatim>\<open>enabled\<close> is, and is left out. \<^verbatim>\<open>tracer\<close> holds the
  spans started through \<^verbatim>\<open>this.tracer\<close>.

  Regular expressions belong to the host language: an exclusion pattern is the predicate
  that \<^verbatim>\<open>pattern.test\<close> computes, and \<^verbatim>\<open>extractFunctionName\<close> is the function from a line of
  the stack trace to the name that its \<^verbatim>\<open>line.match\<close> yields.
\<close>

record 't CAPStackSamplingTracer =
  samples :: "(int \<times> 't Sample list) list"
  activeSpans :: "(int \<times> (string \<times> nat) list) list"
  tracer :: "'t Span list"
  currentAsyncId :: int
  enabled :: bool

record config =
  excludePatterns :: "(string \<Rightarrow> bool) list"
  extractFunctionName :: "string \<Rightarrow> string"

definition newTracer :: "'t CAPStackSamplingTracer" where
  "newTracer = \<lparr>samples = [], activeSpans = [], tracer = [], currentAsyncId = 0,
                 enabled = False\<rparr>"

text \<open>\<^verbatim>\<open>shouldExclude\<close> (lines 130 to 132).\<close>

definition shouldExclude :: "config \<Rightarrow> string \<Rightarrow> bool" where
  "shouldExclude cfg functionName =
     list_ex (\<lambda>pattern. pattern functionName) (excludePatterns cfg)"

text \<open>
  The body of the loop of \<^verbatim>\<open>applyEventsToSpans\<close> (lines 195 to 210), on the table
  \<^verbatim>\<open>spans\<close> of the context and the tracer. \<^verbatim>\<open>startSpan\<close> is called without a context, so
  the new span's parent is the span of the ambient active context, \<open>active\<close>.
\<close>

definition applyEvent ::
  "nat option \<Rightarrow> 't TraceEvent \<Rightarrow> (string \<times> nat) list \<times> 't Span list \<Rightarrow>
   (string \<times> nat) list \<times> 't Span list" where
  "applyEvent active event st =
     (case st of (spans, tr) \<Rightarrow>
        (case kind event of
           START \<Rightarrow>
             (case startSpan (TraceEvent.name event) (TraceEvent.ts event) active tr of
                (sp, tr') \<Rightarrow> (AList.update (TraceEvent.name event) sp spans, tr'))
         | END \<Rightarrow>
             (case map_of spans (TraceEvent.name event) of
                None \<Rightarrow> (spans, tr)
              | Some sp \<Rightarrow>
                  (AList.delete (TraceEvent.name event) spans,
                   endSpan (TraceEvent.ts event) sp (setStatus OK sp tr)))))"

text \<open>
  \<^verbatim>\<open>applyEventsToSpans\<close> (lines 188 to 211). The table \<^verbatim>\<open>spans\<close> is the object stored in
  \<^verbatim>\<open>activeSpans\<close>, so what the loop does to it is written back under the key \<open>aid\<close> (\<^verbatim>\<open>asyncId\<close>).
\<close>

definition applyEventsToSpans ::
  "nat option \<Rightarrow> int \<Rightarrow> 't TraceEvent list \<Rightarrow> 't CAPStackSamplingTracer \<Rightarrow>
   't CAPStackSamplingTracer" where
  "applyEventsToSpans active aid events st =
     (let tables = (if map_of (activeSpans st) aid = None
                    then AList.update aid [] (activeSpans st)
                    else activeSpans st);
          spans = (case map_of tables aid of None \<Rightarrow> [] | Some m \<Rightarrow> m)
      in case fold (applyEvent active) events (spans, tracer st) of
           (spans', tr') \<Rightarrow>
             st\<lparr>activeSpans := AList.update aid spans' tables, tracer := tr'\<rparr>)"

text \<open>\<^verbatim>\<open>processSamples\<close> (lines 134 to 148).\<close>

definition processSamples ::
  "nat option \<Rightarrow> int \<Rightarrow> 't CAPStackSamplingTracer \<Rightarrow> 't CAPStackSamplingTracer" where
  "processSamples active aid st =
     (case map_of (samples st) aid of
        None \<Rightarrow> st
      | Some ss \<Rightarrow>
          if length ss < 2 then st
          else
            let prevSample = ss ! (length ss - 2);
                currSample = ss ! (length ss - 1);
                events = convertSamplesToEvents (stack prevSample) (stack currSample)
                           (StackSample.ts currSample)
            in applyEventsToSpans active aid events st)"

text \<open>
  \<^verbatim>\<open>captureStackSample\<close> (lines 94 to 116). What a tick reads from its environment are
  its arguments: \<open>errorStack\<close> is \<^verbatim>\<open>error.stack?.split('\n')\<close> (\<open>None\<close> when \<^verbatim>\<open>error.stack\<close>
  is undefined), \<open>now\<close> is \<^verbatim>\<open>Date.now()\<close>, and \<open>active\<close> is the span of the active context.
  The filter keeps a name that is not the empty string and that no pattern excludes.
\<close>

definition functionNames :: "config \<Rightarrow> string list option \<Rightarrow> string list" where
  "functionNames cfg errorStack =
     (let stack = (case errorStack of None \<Rightarrow> [] | Some lines \<Rightarrow> drop 2 lines)
      in filter (\<lambda>functionName. functionName \<noteq> [] \<and> \<not> shouldExclude cfg functionName)
           (map (extractFunctionName cfg) stack))"

definition captureStackSample ::
  "config \<Rightarrow> string list option \<Rightarrow> 't \<Rightarrow> nat option \<Rightarrow> 't CAPStackSamplingTracer \<Rightarrow>
   't CAPStackSamplingTracer" where
  "captureStackSample cfg errorStack now active st =
     (if length (functionNames cfg errorStack) = 0 then st
      else
        let sample = \<lparr>ts = now, stack = functionNames cfg errorStack,
                       asyncId = currentAsyncId st\<rparr>;
            st1 = (if map_of (samples st) (currentAsyncId st) = None
                   then st\<lparr>samples := AList.update (currentAsyncId st) [] (samples st)\<rparr>
                   else st);
            mine = (case map_of (samples st1) (currentAsyncId st) of
                      None \<Rightarrow> [] | Some ss \<Rightarrow> ss);
            st2 = st1\<lparr>samples := AList.update (currentAsyncId st) (mine @ [sample])
                                     (samples st1)\<rparr>
        in processSamples active (currentAsyncId st) st2)"

text \<open>
  \<^verbatim>\<open>flushAsyncContext\<close> (lines 213 to 220). \<^verbatim>\<open>span.end()\<close> takes the time from the clock;
  \<open>now\<close> is the clock's reading at the teardown, one instant for the whole call.
\<close>

definition flushAsyncContext ::
  "'t \<Rightarrow> int \<Rightarrow> 't CAPStackSamplingTracer \<Rightarrow> 't CAPStackSamplingTracer" where
  "flushAsyncContext now aid st =
     (let st1 = st\<lparr>samples := AList.delete aid (samples st)\<rparr>
      in case map_of (activeSpans st1) aid of
           None \<Rightarrow> st1
         | Some spans \<Rightarrow>
             st1\<lparr>tracer := fold (\<lambda>(functionName, sp). endSpan now sp) spans (tracer st1),
                 activeSpans := AList.delete aid (activeSpans st1)\<rparr>)"

text \<open>
  \<^verbatim>\<open>start\<close> and \<^verbatim>\<open>stop\<close> (lines 62 to 92). \<^verbatim>\<open>stop\<close> flushes every context that has a table;
  a context flushed during the \<^verbatim>\<open>forEach\<close> is the one being visited, so every key of the
  table list is visited.
\<close>

definition start :: "'t CAPStackSamplingTracer \<Rightarrow> 't CAPStackSamplingTracer" where
  "start st = (if enabled st then st else st\<lparr>enabled := True\<rparr>)"

definition stop :: "'t \<Rightarrow> 't CAPStackSamplingTracer \<Rightarrow> 't CAPStackSamplingTracer" where
  "stop now st =
     (if \<not> enabled st then st
      else fold (flushAsyncContext now) (map fst (activeSpans st)) (st\<lparr>enabled := False\<rparr>))"

text \<open>
  What can happen to a tracer: the calls of its two public methods, and, while it is
  enabled, the ticks of its timer and the callbacks of its hook (lines 46 to 59, 68 to 70).
  The reachable states are the states \<open>run cfg inputs newTracer\<close>.
\<close>

datatype 't input =
    Start
  | Stop 't
  | Tick "string list option" 't "nat option"
  | HookInit int
  | HookBefore int
  | HookAfter int
  | HookDestroy int 't

fun step :: "config \<Rightarrow> 't input \<Rightarrow> 't CAPStackSamplingTracer \<Rightarrow> 't CAPStackSamplingTracer" where
  "step cfg Start st = start st"
| "step cfg (Stop now) st = stop now st"
| "step cfg (Tick errorStack now active) st =
     (if enabled st then captureStackSample cfg errorStack now active st else st)"
| "step cfg (HookInit a) st = (if enabled st then st\<lparr>currentAsyncId := a\<rparr> else st)"
| "step cfg (HookBefore a) st = (if enabled st then st\<lparr>currentAsyncId := a\<rparr> else st)"
| "step cfg (HookAfter a) st = (if enabled st then st\<lparr>currentAsyncId := a\<rparr> else st)"
| "step cfg (HookDestroy a now) st = (if enabled st then flushAsyncContext now a st else st)"

definition run ::
  "config \<Rightarrow> 't input list \<Rightarrow> 't CAPStackSamplingTracer \<Rightarrow> 't CAPStackSamplingTracer" where
  "run cfg inputs st = fold (step cfg) inputs st"

section \<open>The profile reconstructor: \<^verbatim>\<open>processProfileToSpans\<close>\<close>

text \<open>
  A JavaScript number is a real number or \<^verbatim>\<open>NaN\<close>; the rounding of the floating-point
  operations and the infinities are not modelled. Adding \<^verbatim>\<open>undefined\<close> gives \<^verbatim>\<open>NaN\<close>, as
  adding \<^verbatim>\<open>NaN\<close> does. \<^verbatim>\<open>%\<close> is the remainder of the division that truncates towards
  zero, and \<^verbatim>\<open>Math.round\<close> rounds a half upwards.
\<close>

datatype jsnum = Num real | NaN

fun jsadd :: "jsnum \<Rightarrow> jsnum \<Rightarrow> jsnum" where
  "jsadd (Num a) (Num b) = Num (a + b)"
| "jsadd a b = NaN"

fun jsdiv :: "jsnum \<Rightarrow> real \<Rightarrow> jsnum" where
  "jsdiv (Num a) d = Num (a / d)"
| "jsdiv NaN d = NaN"

fun jsmul :: "jsnum \<Rightarrow> real \<Rightarrow> jsnum" where
  "jsmul (Num a) d = Num (a * d)"
| "jsmul NaN d = NaN"

fun jsrem :: "jsnum \<Rightarrow> real \<Rightarrow> jsnum" where
  "jsrem (Num a) d =
     Num (a - d * of_int (if 0 \<le> a / d then \<lfloor>a / d\<rfloor> else \<lceil>a / d\<rceil>))"
| "jsrem NaN d = NaN"

fun jsfloor :: "jsnum \<Rightarrow> jsnum" where
  "jsfloor (Num a) = Num (of_int \<lfloor>a\<rfloor>)"
| "jsfloor NaN = NaN"

fun jsround :: "jsnum \<Rightarrow> jsnum" where
  "jsround (Num a) = Num (of_int \<lfloor>a + 1 / 2\<rfloor>)"
| "jsround NaN = NaN"

type_synonym HrTime = "jsnum \<times> jsnum"

text \<open>\<^verbatim>\<open>millisecondsToHrTime\<close> (\<^verbatim>\<open>srv/tracer.ts\<close>, lines 111 to 115).\<close>

definition millisecondsToHrTime :: "jsnum \<Rightarrow> HrTime" where
  "millisecondsToHrTime ms =
     (let seconds = jsfloor (jsdiv ms 1000);
          nanos = jsround (jsmul (jsrem ms 1000) 1000000)
      in (seconds, nanos))"

text \<open>
  The profile that \<^verbatim>\<open>processProfileToSpans\<close> reads: \<^verbatim>\<open>profile.profile\<close> with its fields
  \<^verbatim>\<open>nodes\<close>, \<^verbatim>\<open>startTime\<close>, \<^verbatim>\<open>samples\<close> and \<^verbatim>\<open>timeDeltas\<close>. \<^verbatim>\<open>traverse\<close> reads of a node
  its \<^verbatim>\<open>id\<close>, its \<^verbatim>\<open>callFrame.functionName\<close> and its \<^verbatim>\<open>children\<close>, which it takes to be
  nodes; a node without children has the empty list.
\<close>

datatype node = Node (node_id: int) (functionName: string) (children: "node list")

record profile =
  nodes :: "node list"
  startTime :: jsnum
  samples :: "int list"
  timeDeltas :: "jsnum list"

datatype error = TypeError

text \<open>
  \<^verbatim>\<open>traverse\<close> (lines 21 to 29) writes the two maps \<^verbatim>\<open>nodeMap\<close> and \<^verbatim>\<open>parentMap\<close> of the
  enclosing call. An empty function name is falsy, so it is replaced.
\<close>

fun traverse ::
  "node \<Rightarrow> (int \<rightharpoonup> string) \<times> (int \<rightharpoonup> int) \<Rightarrow> (int \<rightharpoonup> string) \<times> (int \<rightharpoonup> int)" where
  "traverse (Node i fn cs) maps =
     (case maps of (nodeMap, parentMap) \<Rightarrow>
        fold (\<lambda>child maps'.
                case maps' of (nodeMap', parentMap') \<Rightarrow>
                  traverse child (nodeMap', parentMap'(node_id child \<mapsto> i)))
          cs
          (nodeMap(i \<mapsto> (if fn = [] then ''(anonymous)'' else fn)), parentMap))"

text \<open>
  The loop that walks up the tree (lines 44 to 49). Nothing bounds the number of its
  iterations: when the parent pointers run in a circle it does not return, which is the
  value \<open>None\<close>.

  \<^verbatim>\<open>while (currentId !== undefined && nodeMap.has(currentId)) {
     stack.unshift(nodeMap.get(currentId)!);
     currentId = parentMap.get(currentId);
   }\<close>
\<close>

partial_function (option) walkUp ::
  "(int \<rightharpoonup> string) \<Rightarrow> (int \<rightharpoonup> int) \<Rightarrow> int option \<Rightarrow> string list \<Rightarrow> string list option" where
  "walkUp nodeMap parentMap currentId stk =
     (case currentId of
        None \<Rightarrow> Some stk
      | Some i \<Rightarrow>
          (case nodeMap i of
             None \<Rightarrow> Some stk
           | Some fn \<Rightarrow> walkUp nodeMap parentMap (parentMap i) (fn # stk)))"

declare walkUp.simps [code]

text \<open>
  The body of \<^verbatim>\<open>profile.profile.samples.forEach\<close> (lines 39 to 52), with the index of the
  entry, the running \<^verbatim>\<open>currentTime\<close> and the array \<^verbatim>\<open>samples\<close> built so far. An index past the
  end of \<^verbatim>\<open>timeDeltas\<close> reads \<^verbatim>\<open>undefined\<close>.
\<close>

fun buildSamples ::
  "(int \<rightharpoonup> string) \<Rightarrow> (int \<rightharpoonup> int) \<Rightarrow> jsnum list \<Rightarrow> int list \<Rightarrow> nat \<Rightarrow> jsnum \<Rightarrow>
   jsnum StackSample list \<Rightarrow> jsnum StackSample list option" where
  "buildSamples nodeMap parentMap deltas [] index currentTime acc = Some acc"
| "buildSamples nodeMap parentMap deltas (nodeId # rest) index currentTime acc =
     (let timeDelta = (if index < length deltas then deltas ! index else NaN);
          currentTime' = jsadd currentTime timeDelta
      in case walkUp nodeMap parentMap (Some nodeId) [] of
           None \<Rightarrow> None
         | Some stk \<Rightarrow>
             buildSamples nodeMap parentMap deltas rest (Suc index) currentTime'
               (acc @ [\<lparr>ts = jsdiv currentTime' 1000, stack = stk\<rparr>]))"

text \<open>
  Steps 1 and 2 of \<^verbatim>\<open>processProfileToSpans\<close> (lines 16 to 52): the linear samples of the
  profile. \<^verbatim>\<open>nodes[0]\<close> of an empty array is \<^verbatim>\<open>undefined\<close>, and \<^verbatim>\<open>traverse\<close> throws a
  \<^verbatim>\<open>TypeError\<close> when it reads its \<^verbatim>\<open>id\<close>. The function has no other \<^verbatim>\<open>throw\<close>.
\<close>

definition reconstruct :: "profile \<Rightarrow> (error + jsnum StackSample list) option" where
  "reconstruct p =
     (case nodes p of
        [] \<Rightarrow> Some (Inl TypeError)
      | rootNode # others \<Rightarrow>
          (case traverse rootNode (Map.empty, Map.empty) of
             (nodeMap, parentMap) \<Rightarrow>
               map_option Inr
                 (buildSamples nodeMap parentMap (timeDeltas p) (profile.samples p) 0
                    (profile.startTime p) [])))"

text \<open>
  Step 3 (lines 55 to 103). The table \<^verbatim>\<open>activeSpans\<close> is keyed by the depth \<open>i + 1\<close>.

  \<^verbatim>\<open>for (let i = prevStack.length; i > commonLen; i--) {
     if (activeSpans.has(i)) {
       activeSpans.get(i)?.end(millisecondsToHrTime(ts));
       activeSpans.delete(i);
     }
   }\<close>
\<close>

function endSpansLoop ::
  "'t \<Rightarrow> nat \<Rightarrow> nat \<Rightarrow> (nat \<times> nat) list \<times> 't Span list \<Rightarrow> (nat \<times> nat) list \<times> 't Span list" where
  "endSpansLoop t commonLen i st =
     (if i > commonLen
      then endSpansLoop t commonLen (i - 1)
             (case st of (actives, tr) \<Rightarrow>
                (case map_of actives i of
                   None \<Rightarrow> (actives, tr)
                 | Some sp \<Rightarrow> (AList.delete i actives, endSpan t sp tr)))
      else st)"
  by pat_completeness auto
termination
  by (relation "measure (\<lambda>(t, commonLen, i, st). i)") auto

declare endSpansLoop.simps [simp del]

text \<open>
  \<^verbatim>\<open>for (let i = commonLen; i < currStack.length; i++) {
     const fnName = currStack[i];
     if (fnName === '(root)') continue;
     const span = tracer.startSpan(fnName, { startTime: millisecondsToHrTime(ts) },
                                   spanContext);
     activeSpans.set(i + 1, span);
   }\<close>
  \<^verbatim>\<open>spanContext\<close> is the active context with \<^verbatim>\<open>parentSpan\<close> set as its span (lines 13 and
  14), so every span is started with \<^verbatim>\<open>parentSpan\<close> as its parent.
\<close>

function startSpansLoop ::
  "nat \<Rightarrow> 't \<Rightarrow> string list \<Rightarrow> nat \<Rightarrow> (nat \<times> nat) list \<times> 't Span list \<Rightarrow>
   (nat \<times> nat) list \<times> 't Span list" where
  "startSpansLoop parentSpan t currStack i st =
     (if i < length currStack
      then startSpansLoop parentSpan t currStack (Suc i)
             (case st of (actives, tr) \<Rightarrow>
                (let fnName = currStack ! i
                 in if fnName = ''(root)'' then (actives, tr)
                    else (case startSpan fnName t (Some parentSpan) tr of
                            (sp, tr') \<Rightarrow> (AList.update (i + 1) sp actives, tr'))))
      else st)"
  by pat_completeness auto
termination
  by (relation "measure (\<lambda>(parentSpan, t, currStack, i, st). length currStack - i)") auto

declare startSpansLoop.simps [simp del]

text \<open>
  The body of \<^verbatim>\<open>samples.forEach\<close> (lines 60 to 103) on the table, \<^verbatim>\<open>prevStack\<close> and the
  tracer.
\<close>

definition sampleStep ::
  "nat \<Rightarrow> jsnum StackSample \<Rightarrow> (nat \<times> nat) list \<times> string list \<times> HrTime Span list \<Rightarrow>
   (nat \<times> nat) list \<times> string list \<times> HrTime Span list" where
  "sampleStep parentSpan sample st =
     (case st of (actives, prevStack, tr) \<Rightarrow>
        (let currStack = stack sample;
             t = millisecondsToHrTime (StackSample.ts sample);
             commonLen = commonLenLoop prevStack currStack 0
         in case startSpansLoop parentSpan t currStack commonLen
                   (endSpansLoop t commonLen (length prevStack) (actives, tr)) of
              (actives', tr') \<Rightarrow> (actives', currStack, tr')))"

definition sampleLoop ::
  "nat \<Rightarrow> jsnum StackSample list \<Rightarrow> HrTime Span list \<Rightarrow>
   (nat \<times> nat) list \<times> string list \<times> HrTime Span list" where
  "sampleLoop parentSpan ss tr = fold (sampleStep parentSpan) ss ([], [], tr)"

text \<open>
  \<^verbatim>\<open>processProfileToSpans\<close> (lines 9 to 107) on the spans of the tracer. The last line ends
  what is left in the table at the reading \<open>now\<close> of the clock.
\<close>

definition processProfileToSpans ::
  "profile \<Rightarrow> nat \<Rightarrow> HrTime \<Rightarrow> HrTime Span list \<Rightarrow> (error + HrTime Span list) option" where
  "processProfileToSpans p parentSpan now tr =
     (case reconstruct p of
        None \<Rightarrow> None
      | Some (Inl e) \<Rightarrow> Some (Inl e)
      | Some (Inr ss) \<Rightarrow>
          (case sampleLoop parentSpan ss tr of
             (actives, prevStack, tr') \<Rightarrow>
               Some (Inr (fold (\<lambda>(depth, sp). endSpan now sp) actives tr'))))"

section \<open>Notions for stating properties\<close>

text \<open>
  The node ids of a call tree, the node ids with their depths, and the pairs of a node's
  id and a child's id.
\<close>

fun ids :: "node \<Rightarrow> int list" where
  "ids (Node i fn cs) = i # concat (map ids cs)"

fun levels :: "nat \<Rightarrow> node \<Rightarrow> (int \<times> nat) list" where
  "levels d (Node i fn cs) = (i, d) # concat (map (levels (Suc d)) cs)"

fun edges :: "node \<Rightarrow> (int \<times> int) set" where
  "edges (Node i fn cs) = (\<lambda>c. (i, node_id c)) ` set cs \<union> (\<Union>c \<in> set cs. edges c)"

text \<open>
  The spans of a tracer from position \<open>n\<close> on have the parent \<open>par\<close>.
\<close>

definition startedUnder :: "nat \<Rightarrow> nat option \<Rightarrow> 't Span list \<Rightarrow> bool" where
  "startedUnder n par tr \<longleftrightarrow>
     n \<le> length tr \<and> (\<forall>i. n \<le> i \<and> i < length tr \<longrightarrow> parent (tr ! i) = par)"

text \<open>
  Every open span of a tracer is held by the table \<open>tbl\<close> or satisfies \<open>H\<close>.
\<close>

definition heldOr :: "(nat \<Rightarrow> bool) \<Rightarrow> ('k \<times> nat) list \<Rightarrow> 't Span list \<Rightarrow> bool" where
  "heldOr H tbl tr \<longleftrightarrow>
     (\<forall>j < length tr. endTime (tr ! j) = None \<longrightarrow> (\<exists>k. map_of tbl k = Some j) \<or> H j)"

text \<open>
  Of a state of the live sampler: every open span of the tracer is held by the table of
  some context; and a context that has a table has at least two samples, and the names in
  its table are names of the stack of its last sample.
\<close>

definition tablesHoldOpenSpans :: "'t CAPStackSamplingTracer \<Rightarrow> bool" where
  "tablesHoldOpenSpans st \<longleftrightarrow>
     (\<forall>j < length (tracer st). endTime (tracer st ! j) = None \<longrightarrow>
        (\<exists>aid spans k. map_of (activeSpans st) aid = Some spans \<and> map_of spans k = Some j))"

definition tablesWithinLastStack :: "'t CAPStackSamplingTracer \<Rightarrow> bool" where
  "tablesWithinLastStack st \<longleftrightarrow>
     (\<forall>aid spans. map_of (activeSpans st) aid = Some spans \<longrightarrow>
        (\<exists>ss. map_of (CAPStackSamplingTracer.samples st) aid = Some ss \<and> 2 \<le> length ss \<and>
              dom (map_of spans) \<subseteq> set (stack (last ss))))"

definition tablesInv :: "'t CAPStackSamplingTracer \<Rightarrow> bool" where
  "tablesInv st \<longleftrightarrow> tablesHoldOpenSpans st \<and> tablesWithinLastStack st"

text \<open>A tick whose filtered stack has no name twice; every other input.\<close>

fun distinctTick :: "config \<Rightarrow> 't input \<Rightarrow> bool" where
  "distinctTick cfg (Tick errorStack now active) = distinct (functionNames cfg errorStack)"
| "distinctTick cfg inp = True"

section \<open>Example inputs\<close>

text \<open>
  A configuration whose one pattern excludes the names that start with \<^verbatim>\<open>process.\<close> and
  whose name of a line is the line without its leading \<^verbatim>\<open>at\<close>, and a tracer of two
  contexts, each with two samples and one open span.
\<close>

definition exampleConfig :: config where
  "exampleConfig = \<lparr>excludePatterns = [prefix ''process.''], extractFunctionName = drop 3\<rparr>"

definition exampleTracer :: "int CAPStackSamplingTracer" where
  "exampleTracer =
     \<lparr>CAPStackSamplingTracer.samples =
        [(7, [\<lparr>ts = 1, stack = [''m''], asyncId = 7\<rparr>,
              \<lparr>ts = 2, stack = [''m'', ''a''], asyncId = 7\<rparr>]),
         (8, [\<lparr>ts = 1, stack = [''n''], asyncId = 8\<rparr>,
              \<lparr>ts = 3, stack = [''n'', ''b''], asyncId = 8\<rparr>])],
      activeSpans = [(7, [(''a'', 0)]), (8, [(''b'', 1)])],
      tracer = [\<lparr>name = ''a'', startTime = 2, endTime = None, status = UNSET, parent = None\<rparr>,
                \<lparr>name = ''b'', startTime = 3, endTime = None, status = UNSET, parent = None\<rparr>],
      currentAsyncId = 7, enabled = True\<rparr>"

text \<open>
  A profile of two nodes and one tick; the same tree with a second tick that names the
  unknown node 99 and has no entry in \<^verbatim>\<open>timeDeltas\<close>; a profile whose second node has the
  id of its parent; and a tracer whose one span is the span of a request.
\<close>

definition exampleProfile :: profile where
  "exampleProfile =
     \<lparr>nodes = [Node 1 ''main'' [Node 2 ''fn1'' []]], startTime = Num 0,
      samples = [2], timeDeltas = [Num 1000000]\<rparr>"

definition malformedProfile :: profile where
  "malformedProfile =
     \<lparr>nodes = [Node 1 ''main'' [Node 2 ''fn1'' []]], startTime = Num 0,
      samples = [2, 99], timeDeltas = [Num 1000000]\<rparr>"

definition cyclicProfile :: profile where
  "cyclicProfile =
     \<lparr>nodes = [Node 1 ''main'' [Node 1 ''main'' []]], startTime = Num 0,
      samples = [1], timeDeltas = [Num 1000000]\<rparr>"

definition exampleSpans :: "HrTime Span list" where
  "exampleSpans =
     [\<lparr>name = ''request'', startTime = (Num 0, Num 0), endTime = None, status = UNSET,
        parent = None\<rparr>]"

text \<open>
  Two runs of the live sampler in the context 7: the stacks \<^verbatim>\<open>m\<close>; \<^verbatim>\<open>m\<close>, \<^verbatim>\<open>a\<close>, and the
  stacks \<^verbatim>\<open>m\<close>; \<^verbatim>\<open>m\<close>, \<^verbatim>\<open>a\<close>, \<^verbatim>\<open>a\<close>; \<^verbatim>\<open>m\<close>, \<^verbatim>\<open>b\<close>, in which \<^verbatim>\<open>a\<close> calls itself.
\<close>

definition exampleTicks :: "int input list" where
  "exampleTicks =
     [Start, HookBefore 7,
      Tick (Some [''Error'', ''at captureStackSample'', ''at m'']) 1 None,
      Tick (Some [''Error'', ''at captureStackSample'', ''at m'', ''at a'']) 2 None]"

definition recursiveTicks :: "int input list" where
  "recursiveTicks =
     [Start, HookBefore 7,
      Tick (Some [''Error'', ''at captureStackSample'', ''at m'']) 1 None,
      Tick (Some [''Error'', ''at captureStackSample'', ''at m'', ''at a'', ''at a'']) 2 None,
      Tick (Some [''Error'', ''at captureStackSample'', ''at m'', ''at b'']) 3 None]"

section \<open>Lemmas about the loops\<close>

subsection \<open>What the three loops compute\<close>

lemma prefix_nth_eq:
  "prefix xs ys \<Longrightarrow> n < length xs \<Longrightarrow> n < length ys \<and> ys ! n = xs ! n"
  by (auto simp: prefix_def nth_append)

lemma commonLenLoop_lcp:
  "n \<le> length p \<Longrightarrow> n \<le> length c \<Longrightarrow> take n p = take n c \<Longrightarrow>
   commonLenLoop p c n = length (longest_common_prefix p c)"
proof (induction p c n rule: commonLenLoop.induct)
  case (1 p c n)
  show ?case
  proof (cases "n < length p \<and> n < length c \<and> p ! n = c ! n")
    case True
    then have "take (Suc n) p = take (Suc n) c"
      using "1.prems" by (simp add: take_Suc_conv_app_nth)
    with True "1.IH" show ?thesis
      by (subst commonLenLoop.simps) simp
  next
    case False
    have eq: "commonLenLoop p c n = n"
      using False by (subst commonLenLoop.simps) auto
    have "prefix (take n p) p"
      by (rule take_is_prefix)
    moreover have "prefix (take n p) c"
      using "1.prems" by (simp add: take_is_prefix)
    ultimately have "prefix (take n p) (longest_common_prefix p c)"
      by (rule longest_common_prefix_max_prefix)
    then have lower: "n \<le> length (longest_common_prefix p c)"
      using "1.prems" by (auto dest: prefix_length_le)
    have upper: "length (longest_common_prefix p c) \<le> n"
    proof (rule ccontr)
      assume "\<not> length (longest_common_prefix p c) \<le> n"
      then have lt: "n < length (longest_common_prefix p c)" by simp
      have p1: "prefix (longest_common_prefix p c) p"
        and p2: "prefix (longest_common_prefix p c) c"
        by (rule longest_common_prefix_prefix1, rule longest_common_prefix_prefix2)
      from p1 lt have "n < length p \<and> p ! n = longest_common_prefix p c ! n"
        by (rule prefix_nth_eq)
      moreover from p2 lt have "n < length c \<and> c ! n = longest_common_prefix p c ! n"
        by (rule prefix_nth_eq)
      ultimately show False using False by simp
    qed
    from eq lower upper show ?thesis by simp
  qed
qed

lemma commonLenLoop_0: "commonLenLoop p c 0 = length (longest_common_prefix p c)"
  by (rule commonLenLoop_lcp) simp_all

lemma endLoop_eq:
  "i < int (length p) \<Longrightarrow> int n - 1 \<le> i \<Longrightarrow>
   endLoop t p n i evs =
     evs @ map (\<lambda>j. \<lparr>kind = END, ts = t, name = p ! j\<rparr>) (rev [n..<nat (i + 1)])"
proof (induction t p n i evs rule: endLoop.induct)
  case (1 t p n i evs)
  show ?case
  proof (cases "i \<ge> int n")
    case True
    have "nat (i + 1) = Suc (nat i)" "n \<le> nat i"
      using True by simp_all
    then have up: "[n..<nat (i + 1)] = [n..<nat i] @ [nat i]"
      by simp
    have "endLoop t p n i evs =
          endLoop t p n (i - 1) (evs @ [\<lparr>kind = END, ts = t, name = p ! nat i\<rparr>])"
      using True by (subst endLoop.simps) simp
    also have "\<dots> = (evs @ [\<lparr>kind = END, ts = t, name = p ! nat i\<rparr>]) @
          map (\<lambda>j. \<lparr>kind = END, ts = t, name = p ! j\<rparr>) (rev [n..<nat (i - 1 + 1)])"
      using True "1.prems" by (intro "1.IH") auto
    finally show ?thesis using up by simp
  next
    case False
    then have "[n..<nat (i + 1)] = []" by auto
    with False show ?thesis by (subst endLoop.simps) simp
  qed
qed

lemma startLoop_eq:
  "startLoop t c i evs = evs @ map (\<lambda>j. \<lparr>kind = START, ts = t, name = c ! j\<rparr>) [i..<length c]"
proof (induction t c i evs rule: startLoop.induct)
  case (1 t c i evs)
  show ?case
  proof (cases "i < length c")
    case True
    with "1.IH" show ?thesis
      by (subst startLoop.simps) (simp add: upt_conv_Cons)
  next
    case False
    then show ?thesis by (subst startLoop.simps) simp
  qed
qed

lemma lcp_le_length1: "length (longest_common_prefix p c) \<le> length p"
  using longest_common_prefix_prefix1 [of p c] by (rule prefix_length_le)

lemma lcp_le_length2: "length (longest_common_prefix p c) \<le> length c"
  using longest_common_prefix_prefix2 [of p c] by (rule prefix_length_le)

lemma diff_body_eq:
  "startLoop t c (commonLenLoop p c 0)
     (endLoop t p (commonLenLoop p c 0) (int (length p) - 1) evs) =
   evs @
   map (\<lambda>j. \<lparr>kind = END, ts = t, name = p ! j\<rparr>)
     (rev [length (longest_common_prefix p c)..<length p]) @
   map (\<lambda>j. \<lparr>kind = START, ts = t, name = c ! j\<rparr>)
     [length (longest_common_prefix p c)..<length c]"
proof -
  have "int (length (longest_common_prefix p c)) - 1 \<le> int (length p) - 1"
    using lcp_le_length1 [of p c] by simp
  then show ?thesis
    by (simp add: commonLenLoop_0 startLoop_eq endLoop_eq)
qed

lemma convertSamplesToEvents_eq:
  "convertSamplesToEvents p c t =
   map (\<lambda>j. \<lparr>kind = END, ts = t, name = p ! j\<rparr>)
     (rev [length (longest_common_prefix p c)..<length p]) @
   map (\<lambda>j. \<lparr>kind = START, ts = t, name = c ! j\<rparr>)
     [length (longest_common_prefix p c)..<length c]"
  unfolding convertSamplesToEvents_def Let_def using diff_body_eq [of t c p "[]"] by simp

lemma traceLoop_step:
  "traceLoop (sample # rest) prevStack events =
   traceLoop rest (stack sample)
     (events @ convertSamplesToEvents prevStack (stack sample) (StackSample.ts sample))"
  by (simp add: Let_def diff_body_eq convertSamplesToEvents_eq)

lemma traceLoop_single:
  "traceLoop [\<lparr>ts = t, stack = c\<rparr>] p events = events @ convertSamplesToEvents p c t"
  using traceLoop_step [of "\<lparr>ts = t, stack = c\<rparr>" "[]" p events] by simp

lemma lcp_same: "longest_common_prefix s s = s"
  by (induction s) simp_all

lemma convertSamplesToEvents_same: "convertSamplesToEvents s s t = []"
  by (simp add: convertSamplesToEvents_eq lcp_same)

lemma sampleStep_same:
  "sampleStep parentSpan \<lparr>ts = t, stack = s\<rparr> (actives, s, tr) = (actives, s, tr)"
  by (simp add: sampleStep_def Let_def commonLenLoop_0 lcp_same endSpansLoop.simps
      startSpansLoop.simps)

section \<open>The diff of two stacks\<close>

text \<open>
  Claim C1. For every previous stack, current stack and time stamp, the diff is: one END
  event for each index of the previous stack from its last down to \<open>commonLen\<close>, in that
  strictly descending order, followed by one START event for each index of the current
  stack from \<open>commonLen\<close> up to its last, in that strictly ascending order, where
  \<open>commonLen\<close> is the length of the longest common prefix of the two stacks. So there are
  \<open>length prevStack - commonLen\<close> END events and \<open>length currStack - commonLen\<close> START
  events. This holds of \<^const>\<open>convertSamplesToEvents\<close> and of one round of the loop of
  \<^const>\<open>convertSamplesToTrace\<close>, which appends the same events to those it has.
\<close>

theorem diff_emits_ends_then_starts:
  "(let commonLen = length (longest_common_prefix prevStack currStack);
        ends = rev [commonLen..<length prevStack];
        starts = [commonLen..<length currStack];
        expected = map (\<lambda>i. \<lparr>kind = END, ts = t, name = prevStack ! i\<rparr>) ends @
                   map (\<lambda>i. \<lparr>kind = START, ts = t, name = currStack ! i\<rparr>) starts
    in convertSamplesToEvents prevStack currStack t = expected \<and>
       traceLoop [\<lparr>ts = t, stack = currStack\<rparr>] prevStack events = events @ expected \<and>
       length ends = length prevStack - commonLen \<and>
       length starts = length currStack - commonLen \<and>
       sorted_wrt (>) ends \<and> sorted_wrt (<) starts)"
  by (simp add: Let_def traceLoop_single convertSamplesToEvents_eq sorted_wrt_rev
      del: traceLoop.simps)

text \<open>
  Claim C8. The diff of a stack with itself has no events. So a sample whose stack is the
  stack of the sample before it adds no event in \<^const>\<open>convertSamplesToTrace\<close>, starts and
  ends no span in the live sampler, and leaves the table and the spans of
  \<^const>\<open>processProfileToSpans\<close> as they are.
\<close>

theorem diff_same_stack_no_events:
  "convertSamplesToEvents s s t = [] \<and>
   traceLoop [\<lparr>ts = t, stack = s\<rparr>] s events = events \<and>
   tracer (applyEventsToSpans active aid (convertSamplesToEvents s s t) st) = tracer st \<and>
   sampleStep parentSpan \<lparr>ts = t', stack = s\<rparr> (actives, s, tr) = (actives, s, tr)"
  by (simp add: traceLoop_single convertSamplesToEvents_same sampleStep_same
      applyEventsToSpans_def Let_def del: traceLoop.simps)

text \<open>
  Claim C2. The four samples of the example, with \<^verbatim>\<open>main\<close> already open when the first
  one arrives (the previous stack is \<^verbatim>\<open>["main"]\<close>, in the loop or by an earlier sample
  that opened it at some time \<open>t0\<close>): no event at 7.5; at 9.1 START fn1, START fn2; at 9.3
  END fn2, END fn1, START fn2, START fn1, the common prefix of the two stacks having
  length 1; at 10.7 END fn1, END fn2. \<^const>\<open>convertSamplesToTrace\<close> on the four samples alone
  starts from the empty stack and emits START main at 7.5 before them.
\<close>

theorem example_scenario:
  "traceLoop
     [\<lparr>ts = 7.5, stack = [''main'']\<rparr>,
      \<lparr>ts = 9.1, stack = [''main'', ''fn1'', ''fn2'']\<rparr>,
      \<lparr>ts = 9.3, stack = [''main'', ''fn2'', ''fn1'']\<rparr>,
      \<lparr>ts = 10.7, stack = [''main'']\<rparr>] [''main''] [] =
   [\<lparr>kind = START, ts = 9.1 :: real, name = ''fn1''\<rparr>,
    \<lparr>kind = START, ts = 9.1, name = ''fn2''\<rparr>,
    \<lparr>kind = END, ts = 9.3, name = ''fn2''\<rparr>,
    \<lparr>kind = END, ts = 9.3, name = ''fn1''\<rparr>,
    \<lparr>kind = START, ts = 9.3, name = ''fn2''\<rparr>,
    \<lparr>kind = START, ts = 9.3, name = ''fn1''\<rparr>,
    \<lparr>kind = END, ts = 10.7, name = ''fn1''\<rparr>,
    \<lparr>kind = END, ts = 10.7, name = ''fn2''\<rparr>] \<and>
   commonLenLoop [''main'', ''fn1'', ''fn2''] [''main'', ''fn2'', ''fn1''] 0 = 1 \<and>
   convertSamplesToTrace
     [\<lparr>ts = t0, stack = [''main'']\<rparr>,
      \<lparr>ts = 7.5, stack = [''main'']\<rparr>,
      \<lparr>ts = 9.1, stack = [''main'', ''fn1'', ''fn2'']\<rparr>,
      \<lparr>ts = 9.3, stack = [''main'', ''fn2'', ''fn1'']\<rparr>,
      \<lparr>ts = 10.7, stack = [''main'']\<rparr>] =
   [\<lparr>kind = START, ts = t0, name = ''main''\<rparr>,
    \<lparr>kind = START, ts = 9.1, name = ''fn1''\<rparr>,
    \<lparr>kind = START, ts = 9.1, name = ''fn2''\<rparr>,
    \<lparr>kind = END, ts = 9.3, name = ''fn2''\<rparr>,
    \<lparr>kind = END, ts = 9.3, name = ''fn1''\<rparr>,
    \<lparr>kind = START, ts = 9.3, name = ''fn2''\<rparr>,
    \<lparr>kind = START, ts = 9.3, name = ''fn1''\<rparr>,
    \<lparr>kind = END, ts = 10.7, name = ''fn1''\<rparr>,
    \<lparr>kind = END, ts = 10.7, name = ''fn2''\<rparr>] \<and>
   convertSamplesToTrace
     [\<lparr>ts = 7.5, stack = [''main'']\<rparr>,
      \<lparr>ts = 9.1, stack = [''main'', ''fn1'', ''fn2'']\<rparr>,
      \<lparr>ts = 9.3, stack = [''main'', ''fn2'', ''fn1'']\<rparr>,
      \<lparr>ts = 10.7, stack = [''main'']\<rparr>] =
   [\<lparr>kind = START, ts = 7.5 :: real, name = ''main''\<rparr>,
    \<lparr>kind = START, ts = 9.1, name = ''fn1''\<rparr>,
    \<lparr>kind = START, ts = 9.1, name = ''fn2''\<rparr>,
    \<lparr>kind = END, ts = 9.3, name = ''fn2''\<rparr>,
    \<lparr>kind = END, ts = 9.3, name = ''fn1''\<rparr>,
    \<lparr>kind = START, ts = 9.3, name = ''fn2''\<rparr>,
    \<lparr>kind = START, ts = 9.3, name = ''fn1''\<rparr>,
    \<lparr>kind = END, ts = 10.7, name = ''fn1''\<rparr>,
    \<lparr>kind = END, ts = 10.7, name = ''fn2''\<rparr>]"
  by (simp add: convertSamplesToTrace_def Let_def commonLenLoop.simps endLoop.simps
      startLoop.simps)

section \<open>The table of open spans of the live sampler\<close>

lemma length_endSpan [simp]: "length (endSpan t sp tr) = length tr"
  by (simp add: endSpan_def)

lemma length_setStatus [simp]: "length (setStatus c sp tr) = length tr"
  by (simp add: setStatus_def)

lemma endSpan_nth_other: "i \<noteq> sp \<Longrightarrow> endSpan t sp tr ! i = tr ! i"
  by (simp add: endSpan_def)

lemma endSpan_nth_ended:
  "endTime (tr ! i) = Some x \<Longrightarrow> endTime (endSpan t sp tr ! i) = Some x"
  by (cases "i = sp") (simp_all add: endSpan_def)

lemma endSpan_nth_open:
  "sp < length tr \<Longrightarrow> endTime (tr ! sp) = None \<Longrightarrow> endTime (endSpan t sp tr ! sp) = Some t"
  by (simp add: endSpan_def)

lemma length_fold_endSpan [simp]:
  "length (fold (\<lambda>(k, sp). endSpan t sp) spans tr) = length tr"
  by (induction spans arbitrary: tr) (simp_all add: split_def)

lemma fold_endSpan_ended:
  "endTime (tr ! i) = Some x \<Longrightarrow>
   endTime (fold (\<lambda>(k, sp). endSpan t sp) spans tr ! i) = Some x"
  by (induction spans arbitrary: tr) (simp_all add: split_def endSpan_nth_ended)

lemma fold_endSpan_closes:
  "(k, sp) \<in> set spans \<Longrightarrow> sp < length tr \<Longrightarrow> endTime (tr ! sp) = None \<Longrightarrow>
   endTime (fold (\<lambda>(k, sp). endSpan t sp) spans tr ! sp) = Some t"
proof (induction spans arbitrary: tr)
  case Nil
  then show ?case by simp
next
  case (Cons a spans)
  obtain k' sp' where a: "a = (k', sp')" by (cases a)
  show ?case
  proof (cases "sp' = sp")
    case True
    then have "endTime (endSpan t sp' tr ! sp) = Some t"
      using Cons.prems by (simp add: endSpan_nth_open)
    then show ?thesis
      using a by (simp add: fold_endSpan_ended)
  next
    case False
    then have "(k, sp) \<in> set spans" using Cons.prems a by auto
    moreover have "endTime (endSpan t sp' tr ! sp) = None"
      using False Cons.prems by (simp add: endSpan_nth_other)
    ultimately show ?thesis
      using a Cons.prems Cons.IH [of "endSpan t sp' tr"] by simp
  qed
qed

lemma applyEvent_END_missing:
  "kind e = END \<Longrightarrow> map_of spans (TraceEvent.name e) = None \<Longrightarrow>
   applyEvent active e (spans, tr) = (spans, tr)"
  by (simp add: applyEvent_def)

lemma endSpansLoop_missing:
  "commonLen < i \<Longrightarrow> map_of actives i = None \<Longrightarrow>
   endSpansLoop t commonLen i (actives, tr) = endSpansLoop t commonLen (i - 1) (actives, tr)"
  by (subst endSpansLoop.simps) simp

text \<open>
  Claim C5. An END event whose name has no span in the table of its context changes
  nothing but this: a context that had no table gets an empty one. The spans of the
  tracer, the samples, the tables of the other contexts and the spans in the table of the
  context itself stay as they are. The function has no \<^verbatim>\<open>throw\<close>, and its model is total.
  In \<^verbatim>\<open>processProfileToSpans\<close>, a round of the loop that ends spans skips a depth that has
  no span.
\<close>

theorem end_without_open_span_is_noop:
  assumes "kind e = END"
    and "map_of (case map_of (activeSpans st) aid of None \<Rightarrow> [] | Some m \<Rightarrow> m)
           (TraceEvent.name e) = None"
  shows "applyEventsToSpans active aid [e] st =
           st\<lparr>activeSpans := (if map_of (activeSpans st) aid = None
                                then AList.update aid [] (activeSpans st)
                                else activeSpans st)\<rparr> \<and>
         tracer (applyEventsToSpans active aid [e] st) = tracer st \<and>
         CAPStackSamplingTracer.samples (applyEventsToSpans active aid [e] st) =
           CAPStackSamplingTracer.samples st \<and>
         (\<forall>other. other \<noteq> aid \<longrightarrow>
            map_of (activeSpans (applyEventsToSpans active aid [e] st)) other =
            map_of (activeSpans st) other) \<and>
         map_of (activeSpans (applyEventsToSpans active aid [e] st)) aid =
           Some (case map_of (activeSpans st) aid of None \<Rightarrow> [] | Some m \<Rightarrow> m) \<and>
         (commonLen < i \<and> map_of actives i = None \<longrightarrow>
            endSpansLoop t commonLen i (actives, tr) =
            endSpansLoop t commonLen (i - 1) (actives, tr))"
proof (cases "map_of (activeSpans st) aid")
  case None
  then have "applyEventsToSpans active aid [e] st =
      st\<lparr>activeSpans := AList.update aid [] (activeSpans st)\<rparr>"
    using assms by (simp add: applyEventsToSpans_def update_conv' applyEvent_END_missing)
  then show ?thesis using None by (simp add: update_conv' endSpansLoop_missing)
next
  case (Some m)
  then have "applyEventsToSpans active aid [e] st = st"
    using assms by (simp add: applyEventsToSpans_def applyEvent_END_missing update_triv)
  then show ?thesis using Some by (simp add: endSpansLoop_missing)
qed

theorem end_without_open_span_is_noop_witness:
  "kind \<lparr>kind = END, ts = 5 :: int, name = ''b''\<rparr> = END \<and>
   map_of (case map_of (activeSpans exampleTracer) 7 of None \<Rightarrow> [] | Some m \<Rightarrow> m)
       (TraceEvent.name \<lparr>kind = END, ts = 5 :: int, name = ''b''\<rparr>) = None \<and>
   applyEventsToSpans None 7 [\<lparr>kind = END, ts = 5, name = ''b''\<rparr>] exampleTracer =
     exampleTracer \<and>
   map_of (activeSpans
       (applyEventsToSpans None 7 [\<lparr>kind = END, ts = 5, name = ''b''\<rparr>] exampleTracer)) 8 =
     Some [(''b'', 1)] \<and>
   (0 :: nat) < 2 \<and> map_of [(1 :: nat, 0 :: nat)] 2 = None \<and>
   endSpansLoop (9 :: int) 0 2 ([(1, 0)], tracer exampleTracer) =
     endSpansLoop 9 0 (2 - 1) ([(1, 0)], tracer exampleTracer)"
proof -
  have h1: "kind \<lparr>kind = END, ts = 5 :: int, name = ''b''\<rparr> = END" by simp
  have h2: "map_of (case map_of (activeSpans exampleTracer) 7 of None \<Rightarrow> [] | Some m \<Rightarrow> m)
       (TraceEvent.name \<lparr>kind = END, ts = 5 :: int, name = ''b''\<rparr>) = None"
    by (simp add: exampleTracer_def)
  have h3: "map_of (activeSpans exampleTracer) 7 \<noteq> None"
    "map_of (activeSpans exampleTracer) 8 = Some [(''b'', 1)]"
    by (simp_all add: exampleTracer_def)
  from end_without_open_span_is_noop [where commonLen = 0 and i = 2 and actives = "[(1, 0)]"
      and t = "9 :: int" and tr = "tracer exampleTracer" and active = None, OF h1 h2] h1 h2 h3
  show ?thesis by simp
qed



text \<open>
  Claim C10. A tick whose stack is empty after the filter returns before it records a
  sample: the tracer is left as it was, with the samples, the tables and the spans of
  every context. The same holds of the tick as a step of an enabled or a stopped tracer.
\<close>

theorem empty_filtered_stack_leaves_state:
  "functionNames cfg errorStack = [] \<Longrightarrow>
   captureStackSample cfg errorStack now active st = st \<and>
   step cfg (Tick errorStack now active) st = st"
  by (simp add: captureStackSample_def)

theorem empty_filtered_stack_leaves_state_witness:
  "functionNames exampleConfig
     (Some [''Error'', ''at captureStackSample'', ''at process.processTimers'']) = [] \<and>
   captureStackSample exampleConfig
     (Some [''Error'', ''at captureStackSample'', ''at process.processTimers'']) 4 None
     exampleTracer = exampleTracer \<and>
   step exampleConfig
     (Tick (Some [''Error'', ''at captureStackSample'', ''at process.processTimers'']) 4 None)
     exampleTracer = exampleTracer"
proof -
  have h: "functionNames exampleConfig
     (Some [''Error'', ''at captureStackSample'', ''at process.processTimers'']) = []"
    by (simp add: functionNames_def shouldExclude_def exampleConfig_def)
  from empty_filtered_stack_leaves_state [OF h, of 4 None exampleTracer] h
  show ?thesis by simp
qed

section \<open>The reconstruction of the samples from a profile\<close>

lemma walkUp_returns:
  assumes acyclic: "\<And>i j. parentMap i = Some j \<Longrightarrow> lvl j < (lvl i :: nat)"
  shows "\<exists>r. walkUp nodeMap parentMap cid stk = Some r"
proof (induction "case cid of None \<Rightarrow> 0 | Some i \<Rightarrow> Suc (lvl i)" arbitrary: cid stk
    rule: less_induct)
  case less
  show ?case
  proof (cases cid)
    case None
    then show ?thesis by (subst walkUp.simps) simp
  next
    case (Some i)
    show ?thesis
    proof (cases "nodeMap i")
      case None
      with Some show ?thesis by (subst walkUp.simps) simp
    next
      case (Some fn)
      have "(case parentMap i of None \<Rightarrow> 0 | Some j \<Rightarrow> Suc (lvl j)) <
            (case cid of None \<Rightarrow> 0 | Some i \<Rightarrow> Suc (lvl i))"
        using \<open>cid = Some i\<close> acyclic by (auto split: option.splits)
      from less [OF this, of "fn # stk"] obtain r where
        "walkUp nodeMap parentMap (parentMap i) (fn # stk) = Some r" by blast
      with Some \<open>cid = Some i\<close> show ?thesis by (subst walkUp.simps) simp
    qed
  qed
qed

lemma walkUp_unknown: "nodeMap i = None \<Longrightarrow> walkUp nodeMap parentMap (Some i) stk = Some stk"
  by (subst walkUp.simps) simp

lemma buildSamples_result:
  "buildSamples nm pm deltas nodeIds idx ct acc = Some ss \<Longrightarrow>
   \<exists>new. ss = acc @ new \<and> length new = length nodeIds \<and>
     (\<forall>k < length nodeIds.
        walkUp nm pm (Some (nodeIds ! k)) [] = Some (stack (new ! k)) \<and>
        (length deltas \<le> idx + k \<longrightarrow> StackSample.ts (new ! k) = NaN))"
proof (induction nodeIds arbitrary: idx ct acc)
  case Nil
  then show ?case by simp
next
  case (Cons nodeId rest)
  let ?ct = "jsadd ct (if idx < length deltas then deltas ! idx else NaN)"
  from Cons.prems obtain stk where
    w: "walkUp nm pm (Some nodeId) [] = Some stk" and
    b: "buildSamples nm pm deltas rest (Suc idx) ?ct
          (acc @ [\<lparr>ts = jsdiv ?ct 1000, stack = stk\<rparr>]) = Some ss"
    by (auto simp: Let_def split: option.splits)
  from Cons.IH [OF b] obtain new where
    new: "ss = (acc @ [\<lparr>ts = jsdiv ?ct 1000, stack = stk\<rparr>]) @ new"
      "length new = length rest"
      "\<forall>k < length rest.
        walkUp nm pm (Some (rest ! k)) [] = Some (stack (new ! k)) \<and>
        (length deltas \<le> Suc idx + k \<longrightarrow> StackSample.ts (new ! k) = NaN)"
    by blast
  let ?new = "\<lparr>ts = jsdiv ?ct 1000, stack = stk\<rparr> # new"
  have "ss = acc @ ?new" using new(1) by simp
  moreover have "length ?new = length (nodeId # rest)" using new(2) by simp
  moreover have "\<forall>k < length (nodeId # rest).
        walkUp nm pm (Some ((nodeId # rest) ! k)) [] = Some (stack (?new ! k)) \<and>
        (length deltas \<le> idx + k \<longrightarrow> StackSample.ts (?new ! k) = NaN)"
  proof (intro allI impI)
    fix k assume "k < length (nodeId # rest)"
    then show "walkUp nm pm (Some ((nodeId # rest) ! k)) [] = Some (stack (?new ! k)) \<and>
        (length deltas \<le> idx + k \<longrightarrow> StackSample.ts (?new ! k) = NaN)"
      using w new(3) by (cases k) auto
  qed
  ultimately show ?case by blast
qed

lemma buildSamples_returns:
  assumes "\<And>i. \<exists>r. walkUp nm pm (Some i) [] = Some r"
  shows "\<exists>ss. buildSamples nm pm deltas nodeIds idx ct acc = Some ss"
proof (induction nodeIds arbitrary: idx ct acc)
  case Nil
  then show ?case by simp
next
  case (Cons nodeId rest)
  from assms obtain r where "walkUp nm pm (Some nodeId) [] = Some r" by blast
  then show ?case using Cons.IH by (simp add: Let_def)
qed

lemma fold_children_parentMap:
  assumes IH: "\<forall>c \<in> set cs. \<forall>nm pm nm' pm' i j. traverse c (nm, pm) = (nm', pm') \<longrightarrow>
      pm' i = Some j \<longrightarrow> pm i = Some j \<or> (j, i) \<in> edges c"
  shows "fold (\<lambda>child maps'. case maps' of (nodeMap', parentMap') \<Rightarrow>
            traverse child (nodeMap', parentMap'(node_id child \<mapsto> p))) cs (nmA, pmA) = (nm', pm') \<Longrightarrow>
         pm' i = Some j \<Longrightarrow>
         pmA i = Some j \<or> (j = p \<and> i \<in> node_id ` set cs) \<or> (\<exists>c \<in> set cs. (j, i) \<in> edges c)"
  using IH
proof (induction cs arbitrary: nmA pmA)
  case Nil
  then show ?case by simp
next
  case (Cons c cs)
  obtain nm1 pm1 where t: "traverse c (nmA, pmA(node_id c \<mapsto> p)) = (nm1, pm1)"
    by (cases "traverse c (nmA, pmA(node_id c \<mapsto> p))")
  have f: "fold (\<lambda>child maps'. case maps' of (nodeMap', parentMap') \<Rightarrow>
            traverse child (nodeMap', parentMap'(node_id child \<mapsto> p))) cs (nm1, pm1) = (nm', pm')"
    using Cons.prems(1) t by (simp del: fun_upd_apply)
  have "pm1 i = Some j \<or> (j = p \<and> i \<in> node_id ` set cs) \<or> (\<exists>c \<in> set cs. (j, i) \<in> edges c)"
    using Cons.IH [OF f Cons.prems(2)] Cons.prems(3) by simp
  moreover have "pm1 i = Some j \<Longrightarrow> (pmA(node_id c \<mapsto> p)) i = Some j \<or> (j, i) \<in> edges c"
    using Cons.prems(3) t by (auto simp del: fun_upd_apply)
  ultimately show ?case by (auto split: if_splits)
qed

lemma traverse_parentMap:
  "traverse n (nm, pm) = (nm', pm') \<Longrightarrow> pm' i = Some j \<Longrightarrow>
   pm i = Some j \<or> (j, i) \<in> edges n"
proof (induction n arbitrary: nm pm nm' pm' i j)
  case (Node p fn cs)
  have f: "fold (\<lambda>child maps'. case maps' of (nodeMap', parentMap') \<Rightarrow>
            traverse child (nodeMap', parentMap'(node_id child \<mapsto> p))) cs
          (nm(p \<mapsto> (if fn = [] then ''(anonymous)'' else fn)), pm) = (nm', pm')"
    using Node.prems(1) by (simp del: fun_upd_apply)
  have "pm i = Some j \<or> (j = p \<and> i \<in> node_id ` set cs) \<or> (\<exists>c \<in> set cs. (j, i) \<in> edges c)"
    by (rule fold_children_parentMap [OF _ f Node.prems(2)]) (use Node.IH in blast)
  then show ?case by auto
qed

lemma fold_children_nodeMap:
  assumes IH: "\<forall>c \<in> set cs. \<forall>nm pm nm' pm' i. traverse c (nm, pm) = (nm', pm') \<longrightarrow>
      nm' i \<noteq> None \<longrightarrow> nm i \<noteq> None \<or> i \<in> set (ids c)"
  shows "fold (\<lambda>child maps'. case maps' of (nodeMap', parentMap') \<Rightarrow>
            traverse child (nodeMap', parentMap'(node_id child \<mapsto> p))) cs (nmA, pmA) = (nm', pm') \<Longrightarrow>
         nm' i \<noteq> None \<Longrightarrow> nmA i \<noteq> None \<or> (\<exists>c \<in> set cs. i \<in> set (ids c))"
  using IH
proof (induction cs arbitrary: nmA pmA)
  case Nil
  then show ?case by simp
next
  case (Cons c cs)
  obtain nm1 pm1 where t: "traverse c (nmA, pmA(node_id c \<mapsto> p)) = (nm1, pm1)"
    by (cases "traverse c (nmA, pmA(node_id c \<mapsto> p))")
  have f: "fold (\<lambda>child maps'. case maps' of (nodeMap', parentMap') \<Rightarrow>
            traverse child (nodeMap', parentMap'(node_id child \<mapsto> p))) cs (nm1, pm1) = (nm', pm')"
    using Cons.prems(1) t by (simp del: fun_upd_apply)
  have "nm1 i \<noteq> None \<or> (\<exists>c \<in> set cs. i \<in> set (ids c))"
    using Cons.IH [OF f Cons.prems(2)] Cons.prems(3) by simp
  moreover have "nm1 i \<noteq> None \<Longrightarrow> nmA i \<noteq> None \<or> i \<in> set (ids c)"
    using Cons.prems(3) t by (simp del: fun_upd_apply) blast
  ultimately show ?case by auto
qed

lemma traverse_nodeMap:
  "traverse n (nm, pm) = (nm', pm') \<Longrightarrow> nm' i \<noteq> None \<Longrightarrow> nm i \<noteq> None \<or> i \<in> set (ids n)"
proof (induction n arbitrary: nm pm nm' pm' i)
  case (Node p fn cs)
  have f: "fold (\<lambda>child maps'. case maps' of (nodeMap', parentMap') \<Rightarrow>
            traverse child (nodeMap', parentMap'(node_id child \<mapsto> p))) cs
          (nm(p \<mapsto> (if fn = [] then ''(anonymous)'' else fn)), pm) = (nm', pm')"
    using Node.prems(1) by (simp del: fun_upd_apply)
  have "(nm(p \<mapsto> (if fn = [] then ''(anonymous)'' else fn))) i \<noteq> None \<or>
        (\<exists>c \<in> set cs. i \<in> set (ids c))"
    by (rule fold_children_nodeMap [OF _ f Node.prems(2)]) (use Node.IH in blast)
  then show ?case by (auto split: if_splits)
qed

lemma levels_keys: "map fst (levels d n) = ids n"
proof (induction n arbitrary: d)
  case (Node p fn cs)
  then have m: "map (\<lambda>c. map fst (levels (Suc d) c)) cs = map ids cs"
    by (intro map_cong) simp_all
  have "map fst (levels d (Node p fn cs)) =
        p # concat (map (\<lambda>c. map fst (levels (Suc d) c)) cs)"
    by (simp add: map_concat comp_def)
  also have "\<dots> = p # concat (map ids cs)"
    by (simp only: m)
  finally show ?case by simp
qed

lemma levels_head: "(node_id n, d) \<in> set (levels d n)"
  by (cases n) simp

lemma edges_levels:
  "(j, i) \<in> edges n \<Longrightarrow> \<exists>d'. (j, d') \<in> set (levels d n) \<and> (i, Suc d') \<in> set (levels d n)"
proof (induction n arbitrary: d)
  case (Node p fn cs)
  from Node.prems consider
      c where "c \<in> set cs" "j = p" "i = node_id c"
    | c where "c \<in> set cs" "(j, i) \<in> edges c"
    by auto
  then show ?case
  proof cases
    case 1
    then have "(i, Suc d) \<in> set (levels (Suc d) c)" by (simp add: levels_head)
    with 1 show ?thesis by auto
  next
    case 2
    from Node.IH [OF 2] obtain d' where
      "(j, d') \<in> set (levels (Suc d) c)" "(i, Suc d') \<in> set (levels (Suc d) c)" by blast
    with 2 show ?thesis by auto
  qed
qed

lemma distinct_ids_acyclic:
  assumes "distinct (ids n)" and "traverse n (Map.empty, Map.empty) = (nm, pm)"
    and "pm i = Some j"
  shows "(case map_of (levels 0 n) j of None \<Rightarrow> 0 | Some d \<Rightarrow> d) <
         (case map_of (levels 0 n) i of None \<Rightarrow> 0 | Some d \<Rightarrow> d)"
proof -
  have "(j, i) \<in> edges n"
    using traverse_parentMap [OF assms(2,3)] by simp
  then obtain d' where d': "(j, d') \<in> set (levels 0 n)" "(i, Suc d') \<in> set (levels 0 n)"
    using edges_levels by blast
  have "distinct (map fst (levels 0 n))"
    using assms(1) by (simp add: levels_keys)
  then have "map_of (levels 0 n) j = Some d'" "map_of (levels 0 n) i = Some (Suc d')"
    using d' by simp_all
  then show ?thesis by simp
qed

lemma buildSamples_take:
  "take n deltas = take n deltas' \<Longrightarrow> idx + length nodeIds \<le> n \<Longrightarrow>
   buildSamples nm pm deltas nodeIds idx ct acc = buildSamples nm pm deltas' nodeIds idx ct acc"
proof (induction nodeIds arbitrary: idx ct acc)
  case Nil
  then show ?case by simp
next
  case (Cons nodeId rest)
  have lt: "idx < n" using Cons.prems(2) by simp
  have "length (take n deltas) = length (take n deltas')"
    using Cons.prems(1) by simp
  then have len: "idx < length deltas \<longleftrightarrow> idx < length deltas'"
    using lt by auto
  have "idx < length deltas \<Longrightarrow> deltas ! idx = deltas' ! idx"
  proof -
    assume a: "idx < length deltas"
    have "take n deltas ! idx = deltas ! idx" "take n deltas' ! idx = deltas' ! idx"
      using lt by simp_all
    then show ?thesis using Cons.prems(1) by simp
  qed
  then have d: "(if idx < length deltas then deltas ! idx else NaN) =
             (if idx < length deltas' then deltas' ! idx else NaN)"
    using len by simp
  have "Suc idx + length rest \<le> n" using Cons.prems(2) by simp
  note IH = Cons.IH [OF Cons.prems(1) this]
  show ?case by (simp add: Let_def d IH split: option.splits)
qed

lemma processProfileToSpans_returns:
  "reconstruct p = Some (Inr ss) \<Longrightarrow> \<exists>tr'. processProfileToSpans p parentSpan now tr = Some (Inr tr')"
  by (simp add: processProfileToSpans_def split: prod.splits)


text \<open>
  When a node has the id of its parent, the parent pointer of that id points to itself,
  and the walk from it does not return.
\<close>

lemma walkUp_cycle:
  assumes "walkUp nodeMap parentMap cid stk = Some r"
  shows "\<not> (cid = Some i \<and> nodeMap i \<noteq> None \<and> parentMap i = Some i)"
proof (rule walkUp.raw_induct [where P = "\<lambda>nm pm c s y. \<not> (c = Some i \<and> nm i \<noteq> None \<and> pm i = Some i)",
      OF _ assms])
  fix w :: "(int \<rightharpoonup> string) \<Rightarrow> (int \<rightharpoonup> int) \<Rightarrow> int option \<Rightarrow> string list \<Rightarrow> string list option"
  fix nm pm c s y
  assume IH: "\<And>nm pm c s y. w nm pm c s = Some y \<Longrightarrow>
      \<not> (c = Some i \<and> nm i \<noteq> None \<and> pm i = Some i)"
    and body: "(case c of None \<Rightarrow> Some s
        | Some i \<Rightarrow> (case nm i of None \<Rightarrow> Some s
            | Some fn \<Rightarrow> w nm pm (pm i) (fn # s))) = Some y"
  show "\<not> (c = Some i \<and> nm i \<noteq> None \<and> pm i = Some i)"
  proof
    assume a: "c = Some i \<and> nm i \<noteq> None \<and> pm i = Some i"
    then obtain fn where "nm i = Some fn" by auto
    with a body have "w nm pm (Some i) (fn # s) = Some y" by simp
    from IH [OF this] a show False by simp
  qed
qed

lemma cyclic_profile_never_returns: "reconstruct cyclicProfile = None"
proof -
  have t: "traverse (Node 1 ''main'' [Node 1 ''main'' []]) (Map.empty, Map.empty) =
      ([1 \<mapsto> ''main''], [1 \<mapsto> 1])"
    by simp
  have "walkUp [1 \<mapsto> ''main''] [1 \<mapsto> 1] (Some 1) [] = None"
    using walkUp_cycle [of "[1 \<mapsto> ''main'']" "[1 \<mapsto> 1]" "Some 1" "[]" _ 1]
    by (cases "walkUp [1 \<mapsto> ''main''] [1 \<mapsto> 1] (Some 1) []") auto
  then show ?thesis
    by (simp add: reconstruct_def cyclicProfile_def t del: traverse.simps)
qed

text \<open>
  Claim C9. The samples that the reconstruction yields are determined by what it reads of
  the profile: the first node, the start time, the array \<^verbatim>\<open>samples\<close>, and the entries of
  \<^verbatim>\<open>timeDeltas\<close> at the indices of \<^verbatim>\<open>samples\<close>. Two profiles that agree on these have the
  same outcome: the same samples in the same order, the same error, or neither returns.
  Two runs on one profile are the case of equal profiles.
\<close>

theorem reconstruct_deterministic:
  assumes "take 1 (nodes p) = take 1 (nodes q)"
    and "profile.startTime p = profile.startTime q"
    and "profile.samples p = profile.samples q"
    and "take (length (profile.samples p)) (timeDeltas p) =
         take (length (profile.samples p)) (timeDeltas q)"
  shows "reconstruct p = reconstruct q"
proof (cases "nodes p")
  case Nil
  then have "nodes q = []" using assms(1) by (cases "nodes q") simp_all
  with Nil show ?thesis by (simp add: reconstruct_def)
next
  case (Cons r rs)
  then obtain rs' where q: "nodes q = r # rs'"
    using assms(1) by (cases "nodes q") simp_all
  obtain nm pm where t: "traverse r (Map.empty, Map.empty) = (nm, pm)"
    by (cases "traverse r (Map.empty, Map.empty)")
  have "buildSamples nm pm (timeDeltas p) (profile.samples p) 0 (profile.startTime p) [] =
        buildSamples nm pm (timeDeltas q) (profile.samples p) 0 (profile.startTime p) []"
    by (rule buildSamples_take [OF assms(4)]) simp
  then show ?thesis
    using Cons q t assms(2,3) by (simp add: reconstruct_def)
qed

theorem reconstruct_deterministic_witness:
  "take 1 (nodes exampleProfile) =
     take 1 (nodes (exampleProfile\<lparr>nodes := nodes exampleProfile @ [Node 5 ''idle'' []],
                                   timeDeltas := [Num 1000000, Num 7]\<rparr>)) \<and>
   take (length (profile.samples exampleProfile)) (timeDeltas exampleProfile) =
     take (length (profile.samples exampleProfile))
       (timeDeltas (exampleProfile\<lparr>nodes := nodes exampleProfile @ [Node 5 ''idle'' []],
                                    timeDeltas := [Num 1000000, Num 7]\<rparr>)) \<and>
   reconstruct exampleProfile =
     reconstruct (exampleProfile\<lparr>nodes := nodes exampleProfile @ [Node 5 ''idle'' []],
                                  timeDeltas := [Num 1000000, Num 7]\<rparr>) \<and>
   reconstruct exampleProfile =
     Some (Inr [\<lparr>ts = Num 1000, stack = [''main'', ''fn1'']\<rparr>])"
proof -
  let ?q = "exampleProfile\<lparr>nodes := nodes exampleProfile @ [Node 5 ''idle'' []],
                           timeDeltas := [Num 1000000, Num 7]\<rparr>"
  have h1: "take 1 (nodes exampleProfile) = take 1 (nodes ?q)"
    by (simp add: exampleProfile_def)
  have h2: "profile.startTime exampleProfile = profile.startTime ?q" by simp
  have h3: "profile.samples exampleProfile = profile.samples ?q" by simp
  have h4: "take (length (profile.samples exampleProfile)) (timeDeltas exampleProfile) =
     take (length (profile.samples exampleProfile)) (timeDeltas ?q)"
    by (simp add: exampleProfile_def)
  have r: "reconstruct exampleProfile =
     Some (Inr [\<lparr>ts = Num 1000, stack = [''main'', ''fn1'']\<rparr>])"
    by (simp add: exampleProfile_def reconstruct_def walkUp.simps)
  from reconstruct_deterministic [OF h1 h2 h3 h4] h1 h4 r show ?thesis by simp
qed

text \<open>
  Claim C4, as the code has it. \<^verbatim>\<open>processProfileToSpans\<close> checks nothing and has no
  error for an invalid profile. For a profile with a first node whose tree has pairwise
  distinct node ids, the reconstruction returns one sample for every entry of \<^verbatim>\<open>samples\<close>,
  whatever the entries and whatever the length of \<^verbatim>\<open>timeDeltas\<close>: the sample of an entry
  that names no node of the tree has the empty stack, the sample of an entry past the end
  of \<^verbatim>\<open>timeDeltas\<close> has the time stamp \<^verbatim>\<open>NaN\<close>, and the call goes on to its spans and
  returns.
\<close>

theorem reconstruct_validates_nothing:
  assumes "nodes p = rootNode # others" and "distinct (ids rootNode)"
  shows "\<exists>ss. reconstruct p = Some (Inr ss) \<and>
           length ss = length (profile.samples p) \<and>
           (\<forall>k < length ss. profile.samples p ! k \<notin> set (ids rootNode) \<longrightarrow>
                             stack (ss ! k) = []) \<and>
           (\<forall>k < length ss. length (timeDeltas p) \<le> k \<longrightarrow> StackSample.ts (ss ! k) = NaN) \<and>
           (\<exists>tr'. processProfileToSpans p parentSpan now tr = Some (Inr tr'))"
proof -
  obtain nm pm where t: "traverse rootNode (Map.empty, Map.empty) = (nm, pm)"
    by (cases "traverse rootNode (Map.empty, Map.empty)")
  have walk: "\<exists>r. walkUp nm pm cid stk = Some r" for cid stk
    by (rule walkUp_returns [where lvl = "\<lambda>i. case map_of (levels 0 rootNode) i of
          None \<Rightarrow> 0 | Some d \<Rightarrow> d"]) (rule distinct_ids_acyclic [OF assms(2) t])
  then obtain ss where
    b: "buildSamples nm pm (timeDeltas p) (profile.samples p) 0 (profile.startTime p) [] = Some ss"
    using buildSamples_returns [of nm pm] by blast
  from buildSamples_result [OF b] have
    len: "length ss = length (profile.samples p)" and
    each: "\<forall>k < length (profile.samples p).
        walkUp nm pm (Some (profile.samples p ! k)) [] = Some (stack (ss ! k)) \<and>
        (length (timeDeltas p) \<le> k \<longrightarrow> StackSample.ts (ss ! k) = NaN)"
    by auto
  have r: "reconstruct p = Some (Inr ss)"
    using assms(1) t b by (simp add: reconstruct_def)
  have unknown: "stack (ss ! k) = []"
    if "k < length ss" "profile.samples p ! k \<notin> set (ids rootNode)" for k
  proof -
    have "nm (profile.samples p ! k) = None"
      using traverse_nodeMap [OF t, of "profile.samples p ! k"] that(2)
      by (cases "nm (profile.samples p ! k)") auto
    then have "walkUp nm pm (Some (profile.samples p ! k)) [] = Some []"
      by (rule walkUp_unknown)
    then show ?thesis using each that(1) len by auto
  qed
  show ?thesis
    using r len each unknown processProfileToSpans_returns [OF r] by auto
qed

theorem reconstruct_validates_nothing_witness:
  "nodes malformedProfile = Node 1 ''main'' [Node 2 ''fn1'' []] # [] \<and>
   distinct (ids (Node 1 ''main'' [Node 2 ''fn1'' []])) \<and>
   (1 :: nat) < 2 \<and>
   profile.samples malformedProfile ! 1 \<notin> set (ids (Node 1 ''main'' [Node 2 ''fn1'' []])) \<and>
   length (timeDeltas malformedProfile) \<le> 1 \<and>
   (case reconstruct malformedProfile of
      Some (Inr ss) \<Rightarrow> length ss = 2 \<and> stack (ss ! 1) = [] \<and> StackSample.ts (ss ! 1) = NaN
    | Some (Inl e) \<Rightarrow> False
    | None \<Rightarrow> False)"
proof -
  have h1: "nodes malformedProfile = Node 1 ''main'' [Node 2 ''fn1'' []] # []"
    by (simp add: malformedProfile_def)
  have h2: "distinct (ids (Node 1 ''main'' [Node 2 ''fn1'' []]))" by simp
  from reconstruct_validates_nothing [OF h1 h2] obtain ss where
    "reconstruct malformedProfile = Some (Inr ss)"
    "length ss = length (profile.samples malformedProfile)"
    "\<forall>k < length ss. profile.samples malformedProfile ! k \<notin>
        set (ids (Node 1 ''main'' [Node 2 ''fn1'' []])) \<longrightarrow> stack (ss ! k) = []"
    "\<forall>k < length ss. length (timeDeltas malformedProfile) \<le> k \<longrightarrow>
        StackSample.ts (ss ! k) = NaN"
    by blast
  then show ?thesis using h1 h2 by (simp add: malformedProfile_def)
qed


text \<open>
  The claim as the specification states it fails on \<^const>\<open>malformedProfile\<close>, whose second
  tick names the unknown node 99 and whose \<^verbatim>\<open>timeDeltas\<close> is shorter than its \<^verbatim>\<open>samples\<close>:
  the reconstruction returns both samples and the call starts and ends two spans.
\<close>

theorem malformed_profile_counterexample:
  "profile.samples malformedProfile ! 1 \<notin> set (ids (hd (nodes malformedProfile))) \<and>
   length (profile.samples malformedProfile) \<noteq> length (timeDeltas malformedProfile) \<and>
   reconstruct malformedProfile =
     Some (Inr [\<lparr>ts = Num 1000, stack = [''main'', ''fn1'']\<rparr>, \<lparr>ts = NaN, stack = []\<rparr>]) \<and>
   processProfileToSpans malformedProfile 0 (Num 9, Num 0) exampleSpans =
     Some (Inr
       [\<lparr>name = ''request'', startTime = (Num 0, Num 0), endTime = None, status = UNSET,
          parent = None\<rparr>,
        \<lparr>name = ''main'', startTime = (Num 1, Num 0), endTime = Some (NaN, NaN),
          status = UNSET, parent = Some 0\<rparr>,
        \<lparr>name = ''fn1'', startTime = (Num 1, Num 0), endTime = Some (NaN, NaN),
          status = UNSET, parent = Some 0\<rparr>])"
proof -
  have r: "reconstruct malformedProfile =
     Some (Inr [\<lparr>ts = Num 1000, stack = [''main'', ''fn1'']\<rparr>, \<lparr>ts = NaN, stack = []\<rparr>])"
    by (simp add: malformedProfile_def reconstruct_def walkUp.simps)
  have "processProfileToSpans malformedProfile 0 (Num 9, Num 0) exampleSpans =
     Some (Inr
       [\<lparr>name = ''request'', startTime = (Num 0, Num 0), endTime = None, status = UNSET,
          parent = None\<rparr>,
        \<lparr>name = ''main'', startTime = (Num 1, Num 0), endTime = Some (NaN, NaN),
          status = UNSET, parent = Some 0\<rparr>,
        \<lparr>name = ''fn1'', startTime = (Num 1, Num 0), endTime = Some (NaN, NaN),
          status = UNSET, parent = Some 0\<rparr>])"
    by (simp add: processProfileToSpans_def r sampleLoop_def sampleStep_def Let_def
        commonLenLoop.simps endSpansLoop.simps startSpansLoop.simps startSpan_def endSpan_def
        millisecondsToHrTime_def exampleSpans_def)
  with r show ?thesis by (simp add: malformedProfile_def)
qed

section \<open>The parent of a span\<close>

lemma parent_endSpan: "parent (endSpan t sp tr ! i) = parent (tr ! i)"
  by (cases "i = sp") (simp_all add: endSpan_def)

lemma parent_setStatus: "parent (setStatus c sp tr ! i) = parent (tr ! i)"
  by (cases "i = sp") (simp_all add: setStatus_def)

lemma startedUnder_endSpan: "startedUnder n par tr \<Longrightarrow> startedUnder n par (endSpan t sp tr)"
  by (simp add: startedUnder_def parent_endSpan)

lemma startedUnder_setStatus: "startedUnder n par tr \<Longrightarrow> startedUnder n par (setStatus c sp tr)"
  by (simp add: startedUnder_def parent_setStatus)

lemma startedUnder_startSpan:
  "startedUnder n par tr \<Longrightarrow> startedUnder n par (snd (startSpan nm t par tr))"
  by (auto simp: startedUnder_def startSpan_def nth_append)

lemma startedUnder_fold_endSpan:
  "startedUnder n par tr \<Longrightarrow> startedUnder n par (fold (\<lambda>(k, sp). endSpan t sp) spans tr)"
  by (induction spans arbitrary: tr) (auto simp: startedUnder_endSpan)

lemma startedUnder_endSpansLoop:
  "startedUnder n par (snd st) \<Longrightarrow> startedUnder n par (snd (endSpansLoop t c i st))"
proof (induction t c i st rule: endSpansLoop.induct)
  case (1 t c i st)
  show ?case
  proof (cases "c < i")
    case True
    obtain actives tr where st: "st = (actives, tr)" by (cases st)
    have "startedUnder n par (snd (case map_of actives i of
              None \<Rightarrow> (actives, tr)
            | Some sp \<Rightarrow> (AList.delete i actives, endSpan t sp tr)))"
      using "1.prems" st by (auto simp: startedUnder_endSpan split: option.splits)
    then show ?thesis
      using True st "1.IH" by (subst endSpansLoop.simps) simp
  next
    case False
    then show ?thesis using "1.prems" by (subst endSpansLoop.simps) simp
  qed
qed

lemma startedUnder_startSpansLoop:
  "startedUnder n (Some ps) (snd st) \<Longrightarrow>
   startedUnder n (Some ps) (snd (startSpansLoop ps t cs i st))"
proof (induction ps t cs i st rule: startSpansLoop.induct)
  case (1 ps t cs i st)
  show ?case
  proof (cases "i < length cs")
    case True
    obtain actives tr where st: "st = (actives, tr)" by (cases st)
    have "startedUnder n (Some ps) (snd (let fnName = cs ! i
                 in if fnName = ''(root)'' then (actives, tr)
                    else (case startSpan fnName t (Some ps) tr of
                            (sp, tr') \<Rightarrow> (AList.update (i + 1) sp actives, tr'))))"
      using "1.prems" st startedUnder_startSpan [of n "Some ps" tr "cs ! i" t]
      by (auto simp: Let_def split: prod.splits)
    then show ?thesis
      using True st "1.IH" by (subst startSpansLoop.simps) simp
  next
    case False
    then show ?thesis using "1.prems" by (subst startSpansLoop.simps) simp
  qed
qed

lemma startedUnder_sampleStep:
  "startedUnder n (Some ps) (snd (snd st)) \<Longrightarrow>
   startedUnder n (Some ps) (snd (snd (sampleStep ps sample st)))"
proof -
  assume a: "startedUnder n (Some ps) (snd (snd st))"
  obtain actives prev tr where st: "st = (actives, prev, tr)" by (cases st)
  let ?t = "millisecondsToHrTime (StackSample.ts sample)"
  let ?c = "commonLenLoop prev (stack sample) 0"
  have "startedUnder n (Some ps) (snd (endSpansLoop ?t ?c (length prev) (actives, tr)))"
    using a st by (intro startedUnder_endSpansLoop) simp
  then have "startedUnder n (Some ps) (snd (startSpansLoop ps ?t (stack sample) ?c
       (endSpansLoop ?t ?c (length prev) (actives, tr))))"
    by (rule startedUnder_startSpansLoop)
  then show ?thesis
    using st by (auto simp: sampleStep_def Let_def split: prod.splits)
qed

lemma startedUnder_fold_sampleStep:
  "startedUnder n (Some ps) (snd (snd st)) \<Longrightarrow>
   startedUnder n (Some ps) (snd (snd (fold (sampleStep ps) ss st)))"
  by (induction ss arbitrary: st) (simp_all add: startedUnder_sampleStep)

lemma startedUnder_applyEvent:
  "startedUnder n par (snd st) \<Longrightarrow> startedUnder n par (snd (applyEvent par e st))"
  by (cases st; cases "kind e")
     (auto simp: applyEvent_def startedUnder_endSpan startedUnder_setStatus
        split: prod.splits option.splits
        dest: startedUnder_startSpan [where nm = "TraceEvent.name e" and t = "TraceEvent.ts e"])

lemma startedUnder_fold_applyEvent:
  "startedUnder n par (snd st) \<Longrightarrow> startedUnder n par (snd (fold (applyEvent par) es st))"
  by (induction es arbitrary: st) (simp_all add: startedUnder_applyEvent)

lemma startedUnder_runs:
  "(processProfileToSpans p parentSpan now tr = Some (Inr tr') \<longrightarrow>
      startedUnder (length tr) (Some parentSpan) tr') \<and>
   startedUnder (length (tracer st)) active
      (tracer (applyEventsToSpans active aid events st))"
proof
  show "processProfileToSpans p parentSpan now tr = Some (Inr tr') \<longrightarrow>
      startedUnder (length tr) (Some parentSpan) tr'"
  proof
    assume a: "processProfileToSpans p parentSpan now tr = Some (Inr tr')"
    then obtain ss where ss: "reconstruct p = Some (Inr ss)"
      by (auto simp: processProfileToSpans_def split: option.splits sum.splits)
    obtain actives prev tr1 where l: "sampleLoop parentSpan ss tr = (actives, prev, tr1)"
      by (cases "sampleLoop parentSpan ss tr")
    have "startedUnder (length tr) (Some parentSpan) (snd (snd ([] :: (nat \<times> nat) list, [] :: string list, tr)))"
      by (auto simp: startedUnder_def)
    then have "startedUnder (length tr) (Some parentSpan)
        (snd (snd (fold (sampleStep parentSpan) ss ([], [], tr))))"
      by (rule startedUnder_fold_sampleStep)
    then have "startedUnder (length tr) (Some parentSpan) tr1"
      using l by (simp add: sampleLoop_def)
    then have "startedUnder (length tr) (Some parentSpan)
        (fold (\<lambda>(depth, sp). endSpan now sp) actives tr1)"
      by (rule startedUnder_fold_endSpan)
    then show "startedUnder (length tr) (Some parentSpan) tr'"
      using a ss l by (simp add: processProfileToSpans_def)
  qed
next
  let ?tables = "if map_of (activeSpans st) aid = None
                 then AList.update aid [] (activeSpans st) else activeSpans st"
  let ?spans = "case map_of ?tables aid of None \<Rightarrow> [] | Some m \<Rightarrow> m"
  have "startedUnder (length (tracer st)) active (snd (?spans, tracer st))"
    by (auto simp: startedUnder_def)
  then have "startedUnder (length (tracer st)) active
      (snd (fold (applyEvent active) events (?spans, tracer st)))"
    by (rule startedUnder_fold_applyEvent)
  then show "startedUnder (length (tracer st)) active
      (tracer (applyEventsToSpans active aid events st))"
    by (auto simp: applyEventsToSpans_def Let_def split: prod.splits)
qed

lemma reconstruct_exampleProfile:
  "reconstruct exampleProfile = Some (Inr [\<lparr>ts = Num 1000, stack = [''main'', ''fn1'']\<rparr>])"
  by (simp add: exampleProfile_def reconstruct_def walkUp.simps)

lemma sampleLoop_example:
  "sampleLoop 0 [\<lparr>ts = Num 1000, stack = [''main'', ''fn1'']\<rparr>] exampleSpans =
     ([(1, 1), (2, 2)], [''main'', ''fn1''],
      [\<lparr>name = ''request'', startTime = (Num 0, Num 0), endTime = None, status = UNSET,
         parent = None\<rparr>,
       \<lparr>name = ''main'', startTime = (Num 1, Num 0), endTime = None, status = UNSET,
         parent = Some 0\<rparr>,
       \<lparr>name = ''fn1'', startTime = (Num 1, Num 0), endTime = None, status = UNSET,
         parent = Some 0\<rparr>])"
  by (simp add: sampleLoop_def sampleStep_def Let_def
        commonLenLoop.simps endSpansLoop.simps startSpansLoop.simps startSpan_def
        millisecondsToHrTime_def exampleSpans_def)

lemma processProfileToSpans_example:
  "processProfileToSpans exampleProfile 0 (Num 9, Num 0) exampleSpans =
     Some (Inr
       [\<lparr>name = ''request'', startTime = (Num 0, Num 0), endTime = None, status = UNSET,
          parent = None\<rparr>,
        \<lparr>name = ''main'', startTime = (Num 1, Num 0), endTime = Some (Num 9, Num 0),
          status = UNSET, parent = Some 0\<rparr>,
        \<lparr>name = ''fn1'', startTime = (Num 1, Num 0), endTime = Some (Num 9, Num 0),
          status = UNSET, parent = Some 0\<rparr>])"
  by (simp add: processProfileToSpans_def reconstruct_exampleProfile sampleLoop_example
      endSpan_def)


text \<open>
  Claim C7, as the code has it. Every span that \<^verbatim>\<open>processProfileToSpans\<close> starts has the
  span \<^verbatim>\<open>parentSpan\<close> of the call as its parent, at every depth. Every span that
  \<^verbatim>\<open>applyEventsToSpans\<close> starts has the span of the ambient active context as its parent,
  since \<^verbatim>\<open>startSpan\<close> is called without a context.
\<close>

theorem spans_started_under_parentSpan:
  "(processProfileToSpans p parentSpan now tr = Some (Inr tr') \<longrightarrow>
      length tr \<le> length tr' \<and>
      (\<forall>i. length tr \<le> i \<and> i < length tr' \<longrightarrow> parent (tr' ! i) = Some parentSpan)) \<and>
   length (tracer st) \<le> length (tracer (applyEventsToSpans active aid events st)) \<and>
   (\<forall>i. length (tracer st) \<le> i \<and>
        i < length (tracer (applyEventsToSpans active aid events st)) \<longrightarrow>
        parent (tracer (applyEventsToSpans active aid events st) ! i) = active)"
  using startedUnder_runs [of p parentSpan now tr tr' st active aid events]
  by (simp add: startedUnder_def)

theorem spans_started_under_parentSpan_witness:
  "processProfileToSpans exampleProfile 0 (Num 9, Num 0) exampleSpans =
     Some (Inr
       [\<lparr>name = ''request'', startTime = (Num 0, Num 0), endTime = None, status = UNSET,
          parent = None\<rparr>,
        \<lparr>name = ''main'', startTime = (Num 1, Num 0), endTime = Some (Num 9, Num 0),
          status = UNSET, parent = Some 0\<rparr>,
        \<lparr>name = ''fn1'', startTime = (Num 1, Num 0), endTime = Some (Num 9, Num 0),
          status = UNSET, parent = Some 0\<rparr>]) \<and>
   length exampleSpans \<le> 2 \<and>
   parent ([\<lparr>name = ''request'', startTime = (Num 0, Num 0), endTime = None, status = UNSET,
              parent = None\<rparr>,
            \<lparr>name = ''main'', startTime = (Num 1, Num 0), endTime = Some (Num 9, Num 0),
              status = UNSET, parent = Some 0\<rparr>,
            \<lparr>name = ''fn1'', startTime = (Num 1, Num 0), endTime = Some (Num 9, Num 0),
              status = UNSET, parent = Some 0\<rparr>] ! 2) = Some 0 \<and>
   length (tracer exampleTracer) \<le> 2 \<and>
   2 < length (tracer (applyEventsToSpans (Some 1) 7
                  [\<lparr>kind = START, ts = 5, name = ''c''\<rparr>] exampleTracer)) \<and>
   parent (tracer (applyEventsToSpans (Some 1) 7
                  [\<lparr>kind = START, ts = 5, name = ''c''\<rparr>] exampleTracer) ! 2) = Some 1"
  using spans_started_under_parentSpan [of exampleProfile 0 "(Num 9, Num 0)" exampleSpans _
      exampleTracer "Some 1" 7 "[\<lparr>kind = START, ts = 5, name = ''c''\<rparr>]"]
    processProfileToSpans_example
  by (simp add: exampleSpans_def exampleTracer_def applyEventsToSpans_def applyEvent_def
      startSpan_def)

text \<open>
  The claim as the specification states it fails on \<^const>\<open>exampleProfile\<close>, called with
  the request's span 0 as \<^verbatim>\<open>parentSpan\<close>. Its one sample has the stack \<^verbatim>\<open>main\<close>, \<^verbatim>\<open>fn1\<close>.
  When the span of \<^verbatim>\<open>fn1\<close> (span 2, stored at depth 2) is started, the depth below it holds
  the span of \<^verbatim>\<open>main\<close> (span 1, stored at depth 1); the parent of span 2 is span 0.
\<close>

theorem parent_is_not_enclosing_span_counterexample:
  "reconstruct exampleProfile = Some (Inr [\<lparr>ts = Num 1000, stack = [''main'', ''fn1'']\<rparr>]) \<and>
   sampleLoop 0 [\<lparr>ts = Num 1000, stack = [''main'', ''fn1'']\<rparr>] exampleSpans =
     ([(1, 1), (2, 2)], [''main'', ''fn1''],
      [\<lparr>name = ''request'', startTime = (Num 0, Num 0), endTime = None, status = UNSET,
         parent = None\<rparr>,
       \<lparr>name = ''main'', startTime = (Num 1, Num 0), endTime = None, status = UNSET,
         parent = Some 0\<rparr>,
       \<lparr>name = ''fn1'', startTime = (Num 1, Num 0), endTime = None, status = UNSET,
         parent = Some 0\<rparr>]) \<and>
   processProfileToSpans exampleProfile 0 (Num 9, Num 0) exampleSpans =
     Some (Inr
       [\<lparr>name = ''request'', startTime = (Num 0, Num 0), endTime = None, status = UNSET,
          parent = None\<rparr>,
        \<lparr>name = ''main'', startTime = (Num 1, Num 0), endTime = Some (Num 9, Num 0),
          status = UNSET, parent = Some 0\<rparr>,
        \<lparr>name = ''fn1'', startTime = (Num 1, Num 0), endTime = Some (Num 9, Num 0),
          status = UNSET, parent = Some 0\<rparr>]) \<and>
   parent (snd (snd (sampleLoop 0 [\<lparr>ts = Num 1000, stack = [''main'', ''fn1'']\<rparr>]
                       exampleSpans)) ! 2) \<noteq>
   map_of (fst (sampleLoop 0 [\<lparr>ts = Num 1000, stack = [''main'', ''fn1'']\<rparr>] exampleSpans)) 1"
  by (simp add: reconstruct_exampleProfile sampleLoop_example processProfileToSpans_example)


section \<open>Open spans and the slots of the table\<close>

subsection \<open>The table keyed by depth\<close>

lemma endTime_setStatus: "endTime (setStatus c sp tr ! j) = endTime (tr ! j)"
  by (cases "j = sp") (simp_all add: setStatus_def)

lemma endSpan_open_before:
  "endTime (endSpan t sp tr ! j) = None \<Longrightarrow> endTime (tr ! j) = None"
  using endSpan_nth_ended [of tr j _ t sp] by (cases "endTime (tr ! j)") auto

lemma endSpan_open_other:
  "j < length tr \<Longrightarrow> endTime (endSpan t sp tr ! j) = None \<Longrightarrow> j \<noteq> sp"
  using endSpan_nth_open [of sp tr t] endSpan_open_before [of t sp tr j] by auto

lemma heldOr_end:
  assumes "heldOr H tbl tr" and "map_of tbl k = Some sp"
  shows "heldOr H (AList.delete k tbl) (endSpan t sp tr)"
  unfolding heldOr_def
proof (intro allI impI)
  fix j assume j: "j < length (endSpan t sp tr)" "endTime (endSpan t sp tr ! j) = None"
  then have "j < length tr" "endTime (tr ! j) = None" "j \<noteq> sp"
    using endSpan_open_before [of t sp tr j] endSpan_open_other [of j tr t sp] by simp_all
  then consider k' where "map_of tbl k' = Some j" | "H j"
    using assms(1) by (auto simp: heldOr_def)
  then show "(\<exists>k'. map_of (AList.delete k tbl) k' = Some j) \<or> H j"
  proof cases
    case 1
    then have "k' \<noteq> k" using assms(2) \<open>j \<noteq> sp\<close> by auto
    then have "map_of (AList.delete k tbl) k' = Some j"
      using 1 by (simp add: delete_conv')
    then show ?thesis by blast
  next
    case 2
    then show ?thesis by simp
  qed
qed

lemma heldOr_setStatus: "heldOr H tbl tr \<Longrightarrow> heldOr H tbl (setStatus c sp tr)"
  by (simp add: heldOr_def endTime_setStatus)

lemma heldOr_start:
  assumes "heldOr H tbl tr" and "map_of tbl k = None"
  shows "heldOr H (AList.update k (length tr) tbl) (snd (startSpan nm t par tr))"
  unfolding heldOr_def
proof (intro allI impI)
  fix j assume j: "j < length (snd (startSpan nm t par tr))"
    "endTime (snd (startSpan nm t par tr) ! j) = None"
  show "(\<exists>k'. map_of (AList.update k (length tr) tbl) k' = Some j) \<or> H j"
  proof (cases "j = length tr")
    case True
    then have "map_of (AList.update k (length tr) tbl) k = Some j"
      by (simp add: update_conv')
    then show ?thesis by blast
  next
    case False
    then have "j < length tr" "endTime (tr ! j) = None"
      using j by (simp_all add: startSpan_def nth_append)
    then consider k' where "map_of tbl k' = Some j" | "H j"
      using assms(1) by (auto simp: heldOr_def)
    then show ?thesis
    proof cases
      case 1
      then have "k' \<noteq> k" using assms(2) by auto
      then have "map_of (AList.update k (length tr) tbl) k' = Some j"
        using 1 by (simp add: update_conv')
      then show ?thesis by blast
    next
      case 2
      then show ?thesis by simp
    qed
  qed
qed

lemma endSpansLoop_inv:
  assumes "heldOr H (fst st) (snd st)"
    and "\<forall>k sp. map_of (fst st) k = Some sp \<longrightarrow> k \<le> i"
    and "c \<le> i"
  shows "heldOr H (fst (endSpansLoop t c i st)) (snd (endSpansLoop t c i st)) \<and>
         (\<forall>k sp. map_of (fst (endSpansLoop t c i st)) k = Some sp \<longrightarrow> k \<le> c)"
  using assms
proof (induction t c i st rule: endSpansLoop.induct)
  case (1 t c i st)
  show ?case
  proof (cases "c < i")
    case True
    obtain actives tr where st: "st = (actives, tr)" by (cases st)
    let ?st1 = "case map_of actives i of
                  None \<Rightarrow> (actives, tr)
                | Some sp \<Rightarrow> (AList.delete i actives, endSpan t sp tr)"
    have h: "heldOr H (fst ?st1) (snd ?st1)"
      using "1.prems"(1) st by (auto simp: heldOr_end split: option.splits)
    have k: "\<forall>k sp. map_of (fst ?st1) k = Some sp \<longrightarrow> k \<le> i - 1"
    proof (intro allI impI)
      fix k sp assume a: "map_of (fst ?st1) k = Some sp"
      then have "k \<noteq> i \<and> map_of actives k = Some sp"
        by (cases "map_of actives i") (auto simp: delete_conv' split: if_splits)
      then show "k \<le> i - 1" using "1.prems"(2) st by fastforce
    qed
    have e: "endSpansLoop t c i st = endSpansLoop t c (i - 1) ?st1"
      using True st by (subst endSpansLoop.simps) simp
    have "c \<le> i - 1" using True by simp
    then show ?thesis
      unfolding e using "1.IH" [OF True] h k st by simp
  next
    case False
    then have e: "endSpansLoop t c i st = st" by (subst endSpansLoop.simps) simp
    show ?thesis unfolding e using "1.prems" False by auto
  qed
qed

lemma startSpansLoop_inv:
  assumes "heldOr H (fst st) (snd st)"
    and "\<forall>k sp. map_of (fst st) k = Some sp \<longrightarrow> k \<le> i"
    and "i \<le> length cs"
  shows "heldOr H (fst (startSpansLoop ps t cs i st)) (snd (startSpansLoop ps t cs i st)) \<and>
         (\<forall>k sp. map_of (fst (startSpansLoop ps t cs i st)) k = Some sp \<longrightarrow> k \<le> length cs)"
  using assms
proof (induction ps t cs i st rule: startSpansLoop.induct)
  case (1 ps t cs i st)
  show ?case
  proof (cases "i < length cs")
    case True
    obtain actives tr where st: "st = (actives, tr)" by (cases st)
    let ?st1 = "let fnName = cs ! i
                in if fnName = ''(root)'' then (actives, tr)
                   else (case startSpan fnName t (Some ps) tr of
                           (sp, tr') \<Rightarrow> (AList.update (i + 1) sp actives, tr'))"
    have free: "map_of actives (i + 1) = None"
      using "1.prems"(2) st by (cases "map_of actives (i + 1)") fastforce+
    have h: "heldOr H (fst ?st1) (snd ?st1)"
      using "1.prems"(1) st heldOr_start [OF _ free, of H tr "cs ! i" t "Some ps"]
      by (auto simp: Let_def startSpan_def)
    have k: "\<forall>k sp. map_of (fst ?st1) k = Some sp \<longrightarrow> k \<le> Suc i"
      using "1.prems"(2) st
      by (auto simp: Let_def startSpan_def update_conv' split: if_splits)
    have e: "startSpansLoop ps t cs i st = startSpansLoop ps t cs (Suc i) ?st1"
      using True st by (subst startSpansLoop.simps) simp
    have "Suc i \<le> length cs" using True by simp
    then show ?thesis
      unfolding e using "1.IH" [OF True] h k st by simp
  next
    case False
    then have e: "startSpansLoop ps t cs i st = st" by (subst startSpansLoop.simps) simp
    show ?thesis unfolding e using "1.prems" False by auto
  qed
qed

lemma sampleStep_inv:
  assumes "heldOr H (fst st) (snd (snd st))"
    and "\<forall>k sp. map_of (fst st) k = Some sp \<longrightarrow> k \<le> length (fst (snd st))"
  shows "heldOr H (fst (sampleStep ps sample st)) (snd (snd (sampleStep ps sample st))) \<and>
         (\<forall>k sp. map_of (fst (sampleStep ps sample st)) k = Some sp \<longrightarrow>
                 k \<le> length (fst (snd (sampleStep ps sample st))))"
proof -
  obtain actives prev tr where st: "st = (actives, prev, tr)" by (cases st)
  let ?t = "millisecondsToHrTime (StackSample.ts sample)"
  let ?c = "commonLenLoop prev (stack sample) 0"
  let ?e = "endSpansLoop ?t ?c (length prev) (actives, tr)"
  let ?s = "startSpansLoop ps ?t (stack sample) ?c ?e"
  have c1: "?c \<le> length prev" and c2: "?c \<le> length (stack sample)"
    by (simp_all add: commonLenLoop_0 lcp_le_length1 lcp_le_length2)
  have e: "heldOr H (fst ?e) (snd ?e) \<and> (\<forall>k sp. map_of (fst ?e) k = Some sp \<longrightarrow> k \<le> ?c)"
    using assms st c1 by (intro endSpansLoop_inv) simp_all
  have "heldOr H (fst ?s) (snd ?s) \<and>
        (\<forall>k sp. map_of (fst ?s) k = Some sp \<longrightarrow> k \<le> length (stack sample))"
    using e c2 by (intro startSpansLoop_inv) simp_all
  moreover have "sampleStep ps sample st = (fst ?s, stack sample, snd ?s)"
    using st by (simp add: sampleStep_def Let_def split: prod.splits)
  ultimately show ?thesis by simp
qed

lemma fold_sampleStep_inv:
  assumes "heldOr H (fst st) (snd (snd st))"
    and "\<forall>k sp. map_of (fst st) k = Some sp \<longrightarrow> k \<le> length (fst (snd st))"
  shows "heldOr H (fst (fold (sampleStep ps) ss st)) (snd (snd (fold (sampleStep ps) ss st))) \<and>
         (\<forall>k sp. map_of (fst (fold (sampleStep ps) ss st)) k = Some sp \<longrightarrow>
                 k \<le> length (fst (snd (fold (sampleStep ps) ss st))))"
  using assms
proof (induction ss arbitrary: st)
  case Nil
  then show ?case by simp
next
  case (Cons s ss)
  from sampleStep_inv [OF Cons.prems, of ps s] show ?case
    by (simp add: Cons.IH)
qed

lemma sampleLoop_holds_open_spans:
  assumes "sampleLoop ps ss tr = (actives, prev, tr')"
    and "length tr \<le> j" and "j < length tr'" and "endTime (tr' ! j) = None"
  shows "\<exists>k \<le> length prev. map_of actives k = Some j"
proof -
  have "heldOr (\<lambda>j. j < length tr) (fst ([] :: (nat \<times> nat) list, [] :: string list, tr))
          (snd (snd ([] :: (nat \<times> nat) list, [] :: string list, tr)))"
    by (simp add: heldOr_def)
  then have "heldOr (\<lambda>j. j < length tr) (fst (fold (sampleStep ps) ss ([], [], tr)))
          (snd (snd (fold (sampleStep ps) ss ([], [], tr)))) \<and>
         (\<forall>k sp. map_of (fst (fold (sampleStep ps) ss ([], [], tr))) k = Some sp \<longrightarrow>
                 k \<le> length (fst (snd (fold (sampleStep ps) ss ([], [], tr)))))"
    by (rule fold_sampleStep_inv) simp
  then have "heldOr (\<lambda>j. j < length tr) actives tr'"
    and keys: "\<forall>k sp. map_of actives k = Some sp \<longrightarrow> k \<le> length prev"
    using assms(1) by (simp_all add: sampleLoop_def)
  then obtain k where "map_of actives k = Some j"
    using assms(2-4) by (auto simp: heldOr_def)
  with keys show ?thesis by blast
qed

subsection \<open>The table keyed by name\<close>

lemma fold_END_inv:
  assumes "heldOr H spans tr"
  shows "heldOr H
           (fst (fold (applyEvent a) (map (\<lambda>n. \<lparr>kind = END, ts = t, name = n\<rparr>) ns) (spans, tr)))
           (snd (fold (applyEvent a) (map (\<lambda>n. \<lparr>kind = END, ts = t, name = n\<rparr>) ns) (spans, tr))) \<and>
         dom (map_of (fst (fold (applyEvent a) (map (\<lambda>n. \<lparr>kind = END, ts = t, name = n\<rparr>) ns)
                (spans, tr)))) = dom (map_of spans) - set ns"
  using assms
proof (induction ns arbitrary: spans tr)
  case Nil
  then show ?case by simp
next
  case (Cons n ns)
  show ?case
  proof (cases "map_of spans n")
    case None
    then have e: "applyEvent a \<lparr>kind = END, ts = t, name = n\<rparr> (spans, tr) = (spans, tr)"
      by (simp add: applyEvent_def)
    have "dom (map_of spans) - set ns = dom (map_of spans) - set (n # ns)"
      using None by auto
    then show ?thesis using Cons.IH [OF Cons.prems] by (simp add: e)
  next
    case (Some sp)
    then have e: "applyEvent a \<lparr>kind = END, ts = t, name = n\<rparr> (spans, tr) =
        (AList.delete n spans, endSpan t sp (setStatus OK sp tr))"
      by (simp add: applyEvent_def)
    have h: "heldOr H (AList.delete n spans) (endSpan t sp (setStatus OK sp tr))"
      using Cons.prems Some by (intro heldOr_end heldOr_setStatus)
    have "dom (map_of (AList.delete n spans)) - set ns = dom (map_of spans) - set (n # ns)"
      by (auto simp: delete_conv')
    then show ?thesis using Cons.IH [OF h] by (simp add: e)
  qed
qed

lemma fold_START_inv:
  assumes "heldOr H spans tr" and "distinct ns" and "set ns \<inter> dom (map_of spans) = {}"
  shows "heldOr H
           (fst (fold (applyEvent a) (map (\<lambda>n. \<lparr>kind = START, ts = t, name = n\<rparr>) ns) (spans, tr)))
           (snd (fold (applyEvent a) (map (\<lambda>n. \<lparr>kind = START, ts = t, name = n\<rparr>) ns) (spans, tr))) \<and>
         dom (map_of (fst (fold (applyEvent a) (map (\<lambda>n. \<lparr>kind = START, ts = t, name = n\<rparr>) ns)
                (spans, tr)))) = dom (map_of spans) \<union> set ns"
  using assms
proof (induction ns arbitrary: spans tr)
  case Nil
  then show ?case by simp
next
  case (Cons n ns)
  have free: "map_of spans n = None" using Cons.prems(3) by auto
  have e: "applyEvent a \<lparr>kind = START, ts = t, name = n\<rparr> (spans, tr) =
      (AList.update n (length tr) spans, snd (startSpan n t a tr))"
    by (simp add: applyEvent_def startSpan_def)
  have h: "heldOr H (AList.update n (length tr) spans) (snd (startSpan n t a tr))"
    using Cons.prems(1) free by (rule heldOr_start)
  have d: "distinct ns" "set ns \<inter> dom (map_of (AList.update n (length tr) spans)) = {}"
    using Cons.prems(2,3) by (auto simp: update_conv')
  have "dom (map_of (AList.update n (length tr) spans)) \<union> set ns =
        dom (map_of spans) \<union> set (n # ns)"
    by (auto simp: update_conv')
  then show ?case using Cons.IH [OF h d] by (simp add: e)
qed

lemma map_nth_upt_drop: "map (\<lambda>j. f (p ! j)) [c..<length p] = map f (drop c p)"
  by (simp add: list_eq_iff_nth_eq)

lemma convertSamplesToEvents_names:
  "convertSamplesToEvents p q t =
     map (\<lambda>n. \<lparr>kind = END, ts = t, name = n\<rparr>)
       (rev (drop (length (longest_common_prefix p q)) p)) @
     map (\<lambda>n. \<lparr>kind = START, ts = t, name = n\<rparr>)
       (drop (length (longest_common_prefix p q)) q)"
  using map_nth_upt_drop [of "\<lambda>n. \<lparr>kind = END, ts = t, name = n\<rparr>" p]
    map_nth_upt_drop [of "\<lambda>n. \<lparr>kind = START, ts = t, name = n\<rparr>" q]
  by (simp add: convertSamplesToEvents_eq rev_map [symmetric])

lemma take_prefix: "prefix xs ys \<Longrightarrow> take (length xs) ys = xs"
  by (auto simp: prefix_def)

lemma take_lcp:
  "take (length (longest_common_prefix p q)) p = take (length (longest_common_prefix p q)) q"
  using take_prefix [OF longest_common_prefix_prefix1 [of p q]]
    take_prefix [OF longest_common_prefix_prefix2 [of p q]]
  by simp

lemma diff_events_inv:
  assumes "heldOr H spans tr" and "dom (map_of spans) \<subseteq> set p" and "distinct q"
  shows "heldOr H (fst (fold (applyEvent a) (convertSamplesToEvents p q t) (spans, tr)))
           (snd (fold (applyEvent a) (convertSamplesToEvents p q t) (spans, tr))) \<and>
         dom (map_of (fst (fold (applyEvent a) (convertSamplesToEvents p q t) (spans, tr))))
           \<subseteq> set q"
proof -
  let ?c = "length (longest_common_prefix p q)"
  let ?ends = "map (\<lambda>n. \<lparr>kind = END, ts = t, name = n\<rparr>) (rev (drop ?c p))"
  let ?starts = "map (\<lambda>n. \<lparr>kind = START, ts = t, name = n\<rparr>) (drop ?c q)"
  let ?s1 = "fold (applyEvent a) ?ends (spans, tr)"
  have e: "heldOr H (fst ?s1) (snd ?s1)"
    and d1: "dom (map_of (fst ?s1)) = dom (map_of spans) - set (rev (drop ?c p))"
    using fold_END_inv [OF assms(1), of a t "rev (drop ?c p)"] by simp_all
  have "set p = set (take ?c p) \<union> set (drop ?c p)"
    by (metis append_take_drop_id set_append)
  then have sub: "dom (map_of (fst ?s1)) \<subseteq> set (take ?c q)"
    using d1 assms(2) take_lcp [of p q] by auto
  have "distinct (take ?c q @ drop ?c q)" using assms(3) by simp
  then have dis: "distinct (drop ?c q)" "set (take ?c q) \<inter> set (drop ?c q) = {}"
    by (simp_all only: distinct_append) 
  then have fresh: "set (drop ?c q) \<inter> dom (map_of (fst ?s1)) = {}"
    using sub by auto
  let ?s2 = "fold (applyEvent a) ?starts (fst ?s1, snd ?s1)"
  have s: "heldOr H (fst ?s2) (snd ?s2)"
    and d2: "dom (map_of (fst ?s2)) = dom (map_of (fst ?s1)) \<union> set (drop ?c q)"
    using fold_START_inv [OF e dis(1) fresh, of a t] by simp_all
  have "set (take ?c q) \<union> set (drop ?c q) = set q"
    by (metis append_take_drop_id set_append)
  then have "dom (map_of (fst ?s2)) \<subseteq> set q"
    using d2 sub by auto
  moreover have "fold (applyEvent a) (convertSamplesToEvents p q t) (spans, tr) = ?s2"
    by (simp add: convertSamplesToEvents_names)
  ultimately show ?thesis using s by simp
qed

lemma tablesInv_newTracer: "tablesInv newTracer"
  by (simp add: tablesInv_def tablesHoldOpenSpans_def tablesWithinLastStack_def newTracer_def)

lemma tablesInv_cong:
  "activeSpans st' = activeSpans st \<Longrightarrow> tracer st' = tracer st \<Longrightarrow>
   CAPStackSamplingTracer.samples st' = CAPStackSamplingTracer.samples st \<Longrightarrow>
   tablesInv st \<Longrightarrow> tablesInv st'"
  by (simp add: tablesInv_def tablesHoldOpenSpans_def tablesWithinLastStack_def)

lemma fold_endSpan_open_before:
  "endTime (fold (\<lambda>(k, sp). endSpan t sp) spans tr ! j) = None \<Longrightarrow> endTime (tr ! j) = None"
  using fold_endSpan_ended [of tr j _ t spans] by (cases "endTime (tr ! j)") auto

lemma tablesInv_flush:
  assumes "tablesInv st"
  shows "tablesInv (flushAsyncContext now aid st)"
proof (cases "map_of (activeSpans st) aid")
  case None
  then have e: "flushAsyncContext now aid st =
      st\<lparr>CAPStackSamplingTracer.samples := AList.delete aid (CAPStackSamplingTracer.samples st)\<rparr>"
    by (simp add: flushAsyncContext_def)
  show ?thesis
    unfolding e using assms None
    by (auto simp: tablesInv_def tablesHoldOpenSpans_def tablesWithinLastStack_def delete_conv')
next
  case (Some spans)
  let ?tr = "fold (\<lambda>(functionName, sp). endSpan now sp) spans (tracer st)"
  have e: "flushAsyncContext now aid st =
      st\<lparr>CAPStackSamplingTracer.samples := AList.delete aid (CAPStackSamplingTracer.samples st),
         tracer := ?tr, activeSpans := AList.delete aid (activeSpans st)\<rparr>"
    using Some by (simp add: flushAsyncContext_def)
  have hold: "tablesHoldOpenSpans (flushAsyncContext now aid st)"
    unfolding e tablesHoldOpenSpans_def
  proof (intro allI impI)
    fix j
    assume "j < length (tracer (st\<lparr>CAPStackSamplingTracer.samples :=
              AList.delete aid (CAPStackSamplingTracer.samples st),
              tracer := ?tr, activeSpans := AList.delete aid (activeSpans st)\<rparr>))"
      and "endTime (tracer (st\<lparr>CAPStackSamplingTracer.samples :=
              AList.delete aid (CAPStackSamplingTracer.samples st),
              tracer := ?tr, activeSpans := AList.delete aid (activeSpans st)\<rparr>) ! j) = None"
    then have j: "j < length (tracer st)" and after: "endTime (?tr ! j) = None" by simp_all
    from after have before: "endTime (tracer st ! j) = None"
      by (rule fold_endSpan_open_before)
    then obtain aid0 spans0 k where
      held: "map_of (activeSpans st) aid0 = Some spans0" "map_of spans0 k = Some j"
      using assms j by (auto simp: tablesInv_def tablesHoldOpenSpans_def)
    have "aid0 \<noteq> aid"
    proof
      assume "aid0 = aid"
      then have "(k, j) \<in> set spans" using held Some by (auto dest: map_of_SomeD)
      then have "endTime (?tr ! j) = Some now"
        using j before by (rule fold_endSpan_closes)
      then show False using after by simp
    qed
    then have "map_of (AList.delete aid (activeSpans st)) aid0 = Some spans0"
      using held(1) by (simp add: delete_conv')
    then show "\<exists>aid' spans' k'.
        map_of (activeSpans (st\<lparr>CAPStackSamplingTracer.samples :=
              AList.delete aid (CAPStackSamplingTracer.samples st),
              tracer := ?tr, activeSpans := AList.delete aid (activeSpans st)\<rparr>)) aid' =
          Some spans' \<and> map_of spans' k' = Some j"
      using held(2) by auto
  qed
  have "tablesWithinLastStack (flushAsyncContext now aid st)"
    unfolding e using assms
    by (auto simp: tablesInv_def tablesWithinLastStack_def delete_conv' split: if_splits)
  with hold show ?thesis by (simp add: tablesInv_def)
qed

lemma tablesInv_fold_flush:
  "tablesInv st \<Longrightarrow> tablesInv (fold (flushAsyncContext now) aids st)"
  by (induction aids arbitrary: st) (simp_all add: tablesInv_flush)

lemma tablesInv_stop: "tablesInv st \<Longrightarrow> tablesInv (stop now st)"
proof -
  assume a: "tablesInv st"
  then have "tablesInv (st\<lparr>enabled := False\<rparr>)"
    by (rule tablesInv_cong [rotated 3]) simp_all
  then show ?thesis by (simp add: stop_def a tablesInv_fold_flush)
qed

lemma tablesInv_start: "tablesInv st \<Longrightarrow> tablesInv (start st)"
  by (auto simp: start_def elim: tablesInv_cong [rotated 3])

lemma tablesInv_currentAsyncId: "tablesInv st \<Longrightarrow> tablesInv (st\<lparr>currentAsyncId := a\<rparr>)"
  by (auto elim: tablesInv_cong [rotated 3])

lemma applyEventsToSpans_eq:
  "applyEventsToSpans a aid events st =
     st\<lparr>activeSpans :=
          AList.update aid
            (fst (fold (applyEvent a) events
               (case map_of (activeSpans st) aid of None \<Rightarrow> [] | Some m \<Rightarrow> m, tracer st)))
            (if map_of (activeSpans st) aid = None
             then AList.update aid [] (activeSpans st) else activeSpans st),
        tracer :=
          snd (fold (applyEvent a) events
               (case map_of (activeSpans st) aid of None \<Rightarrow> [] | Some m \<Rightarrow> m, tracer st))\<rparr>"
  by (auto simp: applyEventsToSpans_def Let_def update_conv' split: prod.splits option.splits)

lemma tablesInv_applyEventsToSpans:
  assumes hold: "tablesHoldOpenSpans st"
    and other: "\<forall>aid' spans'. aid' \<noteq> aid \<longrightarrow> map_of (activeSpans st) aid' = Some spans' \<longrightarrow>
        (\<exists>ss. map_of (CAPStackSamplingTracer.samples st) aid' = Some ss \<and> 2 \<le> length ss \<and>
              dom (map_of spans') \<subseteq> set (stack (last ss)))"
    and cur: "map_of (CAPStackSamplingTracer.samples st) aid = Some ss" "2 \<le> length ss"
      "stack (last ss) = q"
    and dom: "\<forall>spans. map_of (activeSpans st) aid = Some spans \<longrightarrow> dom (map_of spans) \<subseteq> set p"
    and dist: "distinct q"
  shows "tablesInv (applyEventsToSpans a aid (convertSamplesToEvents p q t) st)"
proof -
  let ?spans0 = "case map_of (activeSpans st) aid of None \<Rightarrow> [] | Some m \<Rightarrow> m"
  let ?H = "\<lambda>j. \<exists>aid' spans' k. aid' \<noteq> aid \<and> map_of (activeSpans st) aid' = Some spans' \<and>
                  map_of spans' k = Some j"
  let ?r = "fold (applyEvent a) (convertSamplesToEvents p q t) (?spans0, tracer st)"
  let ?tables = "if map_of (activeSpans st) aid = None
                 then AList.update aid [] (activeSpans st) else activeSpans st"
  let ?st' = "st\<lparr>activeSpans := AList.update aid (fst ?r) ?tables, tracer := snd ?r\<rparr>"
  have h0: "heldOr ?H ?spans0 (tracer st)"
    unfolding heldOr_def
  proof (intro allI impI)
    fix j assume "j < length (tracer st)" "endTime (tracer st ! j) = None"
    then obtain aid0 spans0 k where
      held: "map_of (activeSpans st) aid0 = Some spans0" "map_of spans0 k = Some j"
      using hold by (auto simp: tablesHoldOpenSpans_def)
    show "(\<exists>k. map_of ?spans0 k = Some j) \<or> ?H j"
    proof (cases "aid0 = aid")
      case True
      then show ?thesis using held by auto
    next
      case False
      then show ?thesis using held by blast
    qed
  qed
  have d0: "dom (map_of ?spans0) \<subseteq> set p"
    using dom by (cases "map_of (activeSpans st) aid") simp_all
  from diff_events_inv [OF h0 d0 dist, of a t] have
    h: "heldOr ?H (fst ?r) (snd ?r)" and d: "dom (map_of (fst ?r)) \<subseteq> set q"
    by simp_all
  have tbl: "map_of (activeSpans ?st') = (map_of (activeSpans st))(aid \<mapsto> fst ?r)"
    by (auto simp: update_conv')
  have "tablesHoldOpenSpans ?st'"
    unfolding tablesHoldOpenSpans_def
  proof (intro allI impI)
    fix j assume "j < length (tracer ?st')" "endTime (tracer ?st' ! j) = None"
    then have "(\<exists>k. map_of (fst ?r) k = Some j) \<or> ?H j"
      using h by (simp add: heldOr_def)
    then show "\<exists>aid' spans' k. map_of (activeSpans ?st') aid' = Some spans' \<and>
        map_of spans' k = Some j"
    proof
      assume "\<exists>k. map_of (fst ?r) k = Some j"
      then obtain k where "map_of (fst ?r) k = Some j" by blast
      moreover have "map_of (activeSpans ?st') aid = Some (fst ?r)"
        by (simp only: tbl) simp
      ultimately show ?thesis by blast
    next
      assume "?H j"
      then obtain aid' spans' k where
        o: "aid' \<noteq> aid" "map_of (activeSpans st) aid' = Some spans'" "map_of spans' k = Some j"
        by blast
      then have "map_of (activeSpans ?st') aid' = Some spans'"
        by (simp only: tbl) simp
      with o(3) show ?thesis by blast
    qed
  qed
  moreover have "tablesWithinLastStack ?st'"
    unfolding tablesWithinLastStack_def
  proof (intro allI impI)
    fix aid' spans' assume a: "map_of (activeSpans ?st') aid' = Some spans'"
    show "\<exists>ss. map_of (CAPStackSamplingTracer.samples ?st') aid' = Some ss \<and> 2 \<le> length ss \<and>
              dom (map_of spans') \<subseteq> set (stack (last ss))"
    proof (cases "aid' = aid")
      case True
      then have "spans' = fst ?r" using a by (simp only: tbl) simp
      then show ?thesis using True cur d by simp
    next
      case False
      then have "map_of (activeSpans st) aid' = Some spans'"
        using a by (simp only: tbl) simp
      then show ?thesis using other False by simp
    qed
  qed
  ultimately show ?thesis
    by (simp only: applyEventsToSpans_eq tablesInv_def)
qed

lemma snoc_length_ge2: "xs \<noteq> [] \<Longrightarrow> \<not> length (xs @ [x]) < 2"
  by (cases xs) simp_all

lemma snoc_second_last: "xs \<noteq> [] \<Longrightarrow> (xs @ [x]) ! (length (xs @ [x]) - 2) = last xs"
proof -
  assume a: "xs \<noteq> []"
  then have "length (xs @ [x]) - 2 = length xs - 1" "length xs - 1 < length xs"
    by (cases xs; simp)+
  then show ?thesis using a by (simp add: nth_append last_conv_nth)
qed

lemma tablesInv_captureStackSample:
  assumes inv: "tablesInv st" and dist: "distinct (functionNames cfg es)"
  shows "tablesInv (captureStackSample cfg es now a st)"
proof (cases "functionNames cfg es = []")
  case True
  then show ?thesis using inv by (simp add: captureStackSample_def)
next
  case False
  let ?cid = "currentAsyncId st"
  let ?old = "case map_of (CAPStackSamplingTracer.samples st) ?cid of None \<Rightarrow> [] | Some ss \<Rightarrow> ss"
  let ?sample = "\<lparr>ts = now, stack = functionNames cfg es, asyncId = ?cid\<rparr>"
  let ?st1 = "if map_of (CAPStackSamplingTracer.samples st) ?cid = None
              then st\<lparr>CAPStackSamplingTracer.samples :=
                        AList.update ?cid [] (CAPStackSamplingTracer.samples st)\<rparr>
              else st"
  let ?st2 = "?st1\<lparr>CAPStackSamplingTracer.samples :=
                 AList.update ?cid (?old @ [?sample]) (CAPStackSamplingTracer.samples ?st1)\<rparr>"
  have mine: "(case map_of (CAPStackSamplingTracer.samples ?st1) ?cid of
                 None \<Rightarrow> [] | Some ss \<Rightarrow> ss) = ?old"
    by (auto simp: update_conv' split: option.splits)
  have cap: "captureStackSample cfg es now a st = processSamples a ?cid ?st2"
    using False by (simp only: captureStackSample_def Let_def mine) simp
  have f1: "map_of (CAPStackSamplingTracer.samples ?st2) =
            (map_of (CAPStackSamplingTracer.samples st))(?cid \<mapsto> ?old @ [?sample])"
    by (auto simp: update_conv')
  have f2: "activeSpans ?st2 = activeSpans st" "tracer ?st2 = tracer st"
    by simp_all
  have hold: "tablesHoldOpenSpans ?st2"
    using inv by (simp only: tablesInv_def tablesHoldOpenSpans_def f2) simp
  have within: "\<exists>ss. map_of (CAPStackSamplingTracer.samples st) aid = Some ss \<and> 2 \<le> length ss \<and>
                 dom (map_of spans) \<subseteq> set (stack (last ss))"
    if "map_of (activeSpans st) aid = Some spans" for aid spans
    using inv that by (simp add: tablesInv_def tablesWithinLastStack_def)
  have other: "\<forall>aid' spans'. aid' \<noteq> ?cid \<longrightarrow> map_of (activeSpans ?st2) aid' = Some spans' \<longrightarrow>
        (\<exists>ss. map_of (CAPStackSamplingTracer.samples ?st2) aid' = Some ss \<and> 2 \<le> length ss \<and>
              dom (map_of spans') \<subseteq> set (stack (last ss)))"
  proof (intro allI impI)
    fix aid' spans'
    assume "aid' \<noteq> ?cid" "map_of (activeSpans ?st2) aid' = Some spans'"
    then show "\<exists>ss. map_of (CAPStackSamplingTracer.samples ?st2) aid' = Some ss \<and>
        2 \<le> length ss \<and> dom (map_of spans') \<subseteq> set (stack (last ss))"
      using within [of aid' spans'] by (simp only: f1 f2) simp
  qed
  have ps: "processSamples a ?cid ?st2 =
      (if length (?old @ [?sample]) < 2 then ?st2
       else applyEventsToSpans a ?cid
              (convertSamplesToEvents
                 (stack ((?old @ [?sample]) ! (length (?old @ [?sample]) - 2)))
                 (stack ((?old @ [?sample]) ! (length (?old @ [?sample]) - 1)))
                 (StackSample.ts ((?old @ [?sample]) ! (length (?old @ [?sample]) - 1))))
              ?st2)"
    by (simp only: processSamples_def f1 Let_def) simp
  show ?thesis
  proof (cases "?old = []")
    case True
    have p: "processSamples a ?cid ?st2 = ?st2"
      unfolding ps using True by simp
    have "tablesWithinLastStack ?st2"
      unfolding tablesWithinLastStack_def
    proof (intro allI impI)
      fix aid spans assume t: "map_of (activeSpans ?st2) aid = Some spans"
      then have t': "map_of (activeSpans st) aid = Some spans" by (simp only: f2)
      have "aid \<noteq> ?cid"
      proof
        assume "aid = ?cid"
        then obtain ss where "map_of (CAPStackSamplingTracer.samples st) ?cid = Some ss"
          "2 \<le> length ss"
          using within [OF t'] by auto
        then show False using True by simp
      qed
      then show "\<exists>ss. map_of (CAPStackSamplingTracer.samples ?st2) aid = Some ss \<and>
          2 \<le> length ss \<and> dom (map_of spans) \<subseteq> set (stack (last ss))"
        using other t by blast
    qed
    with hold show ?thesis by (simp only: cap p tablesInv_def)
  next
    case nonempty: False
    let ?ss = "?old @ [?sample]"
    have len: "\<not> length ?ss < 2" using nonempty by (rule snoc_length_ge2)
    have prev: "?ss ! (length ?ss - 2) = last ?old"
      using nonempty by (rule snoc_second_last)
    have curr: "?ss ! (length ?ss - 1) = ?sample" by simp
    have p: "processSamples a ?cid ?st2 =
        applyEventsToSpans a ?cid
          (convertSamplesToEvents (stack (last ?old)) (functionNames cfg es) now) ?st2"
      unfolding ps using len prev curr by simp
    have c1: "map_of (CAPStackSamplingTracer.samples ?st2) ?cid = Some ?ss"
      by (simp only: f1) simp
    have c2: "2 \<le> length ?ss" using len by (simp only: not_less)
    have c3: "stack (last ?ss) = functionNames cfg es" by simp
    have d: "\<forall>spans. map_of (activeSpans ?st2) ?cid = Some spans \<longrightarrow>
               dom (map_of spans) \<subseteq> set (stack (last ?old))"
    proof (intro allI impI)
      fix spans assume "map_of (activeSpans ?st2) ?cid = Some spans"
      then have "map_of (activeSpans st) ?cid = Some spans" by (simp only: f2)
      from within [OF this] show "dom (map_of spans) \<subseteq> set (stack (last ?old))" by auto
    qed
    show ?thesis
      unfolding cap p
      by (rule tablesInv_applyEventsToSpans [OF hold other c1 c2 c3 d dist])
  qed
qed

lemma tablesInv_step:
  "tablesInv st \<Longrightarrow> distinctTick cfg inp \<Longrightarrow> tablesInv (step cfg inp st)"
  by (cases inp)
     (simp_all add: tablesInv_start tablesInv_stop tablesInv_captureStackSample
        tablesInv_currentAsyncId tablesInv_flush)

lemma tablesInv_run:
  "tablesInv st \<Longrightarrow> \<forall>inp \<in> set inputs. distinctTick cfg inp \<Longrightarrow>
   tablesInv (run cfg inputs st)"
  unfolding run_def
  by (induction inputs arbitrary: st) (simp_all add: tablesInv_step)

lemma run_exampleTicks:
  "run exampleConfig exampleTicks newTracer =
     \<lparr>CAPStackSamplingTracer.samples =
        [(7, [\<lparr>ts = 1, stack = [''m''], asyncId = 7\<rparr>,
              \<lparr>ts = 2, stack = [''m'', ''a''], asyncId = 7\<rparr>])],
      activeSpans = [(7, [(''a'', 0)])],
      tracer = [\<lparr>name = ''a'', startTime = 2, endTime = None, status = UNSET, parent = None\<rparr>],
      currentAsyncId = 7, enabled = True\<rparr>"
  by (simp add: run_def exampleTicks_def exampleConfig_def newTracer_def start_def
      captureStackSample_def functionNames_def shouldExclude_def processSamples_def
      convertSamplesToEvents_def commonLenLoop.simps endLoop.simps startLoop.simps
      applyEventsToSpans_def applyEvent_def startSpan_def endSpan_def setStatus_def Let_def)

lemma run_recursiveTicks:
  "run exampleConfig recursiveTicks newTracer =
     \<lparr>CAPStackSamplingTracer.samples =
        [(7, [\<lparr>ts = 1, stack = [''m''], asyncId = 7\<rparr>,
              \<lparr>ts = 2, stack = [''m'', ''a'', ''a''], asyncId = 7\<rparr>,
              \<lparr>ts = 3, stack = [''m'', ''b''], asyncId = 7\<rparr>])],
      activeSpans = [(7, [(''b'', 2)])],
      tracer = [\<lparr>name = ''a'', startTime = 2, endTime = None, status = UNSET, parent = None\<rparr>,
                \<lparr>name = ''a'', startTime = 2, endTime = Some 3, status = OK, parent = None\<rparr>,
                \<lparr>name = ''b'', startTime = 3, endTime = None, status = UNSET, parent = None\<rparr>],
      currentAsyncId = 7, enabled = True\<rparr>"
  by (simp add: run_def recursiveTicks_def exampleConfig_def newTracer_def start_def
      captureStackSample_def functionNames_def shouldExclude_def processSamples_def
      convertSamplesToEvents_def commonLenLoop.simps endLoop.simps startLoop.simps
      applyEventsToSpans_def applyEvent_def startSpan_def endSpan_def setStatus_def Let_def)

lemma run_recursiveTicks_two:
  "run exampleConfig (take 4 recursiveTicks) newTracer =
     \<lparr>CAPStackSamplingTracer.samples =
        [(7, [\<lparr>ts = 1, stack = [''m''], asyncId = 7\<rparr>,
              \<lparr>ts = 2, stack = [''m'', ''a'', ''a''], asyncId = 7\<rparr>])],
      activeSpans = [(7, [(''a'', 1)])],
      tracer = [\<lparr>name = ''a'', startTime = 2, endTime = None, status = UNSET, parent = None\<rparr>,
                \<lparr>name = ''a'', startTime = 2, endTime = None, status = UNSET, parent = None\<rparr>],
      currentAsyncId = 7, enabled = True\<rparr>"
  by (simp add: run_def recursiveTicks_def exampleConfig_def newTracer_def start_def
      captureStackSample_def functionNames_def shouldExclude_def processSamples_def
      convertSamplesToEvents_def commonLenLoop.simps endLoop.simps startLoop.simps
      applyEventsToSpans_def applyEvent_def startSpan_def endSpan_def setStatus_def Let_def)

text \<open>
  Claim C3, as the code has it. A span is stored in a slot that is free, so a span that
  is open is in the table: a slot that is overwritten would leave its span open outside
  the table, beside the span that took the slot. In \<^verbatim>\<open>processProfileToSpans\<close>, whose table
  is keyed by depth, after any number of samples every span that the call has started and
  not ended is in the table, at a depth of the last stack. In the live sampler, whose
  table is keyed by the name of the frame, in every state that is reached by ticks whose
  stacks have no name twice, every open span of the tracer is in the table of a context.
\<close>

theorem open_spans_stay_in_their_table:
  "(sampleLoop parentSpan ss tr = (actives, prevStack, tr') \<and>
    length tr \<le> j \<and> j < length tr' \<and> endTime (tr' ! j) = None \<longrightarrow>
      (\<exists>depth \<le> length prevStack. map_of actives depth = Some j)) \<and>
   (list_all (distinctTick cfg) inputs \<and>
    i < length (tracer (run cfg inputs newTracer)) \<and>
    endTime (tracer (run cfg inputs newTracer) ! i) = None \<longrightarrow>
      (\<exists>aid spans functionName.
         map_of (activeSpans (run cfg inputs newTracer)) aid = Some spans \<and>
         map_of spans functionName = Some i))"
proof (intro conjI impI)
  assume "sampleLoop parentSpan ss tr = (actives, prevStack, tr') \<and>
    length tr \<le> j \<and> j < length tr' \<and> endTime (tr' ! j) = None"
  then show "\<exists>depth \<le> length prevStack. map_of actives depth = Some j"
    using sampleLoop_holds_open_spans [of parentSpan ss tr actives prevStack tr' j] by simp
next
  assume a: "list_all (distinctTick cfg) inputs \<and>
    i < length (tracer (run cfg inputs newTracer)) \<and>
    endTime (tracer (run cfg inputs newTracer) ! i) = None"
  then have "tablesInv (run cfg inputs (newTracer :: 'a CAPStackSamplingTracer))"
    by (intro tablesInv_run tablesInv_newTracer) (simp add: list_all_iff)
  then show "\<exists>aid spans functionName.
         map_of (activeSpans (run cfg inputs newTracer)) aid = Some spans \<and>
         map_of spans functionName = Some i"
    using a by (simp add: tablesInv_def tablesHoldOpenSpans_def)
qed


theorem open_spans_stay_in_their_table_witness:
  "sampleLoop 0 [\<lparr>ts = Num 1000, stack = [''main'', ''fn1'']\<rparr>] exampleSpans =
     ([(1, 1), (2, 2)], [''main'', ''fn1''],
      [\<lparr>name = ''request'', startTime = (Num 0, Num 0), endTime = None, status = UNSET,
         parent = None\<rparr>,
       \<lparr>name = ''main'', startTime = (Num 1, Num 0), endTime = None, status = UNSET,
         parent = Some 0\<rparr>,
       \<lparr>name = ''fn1'', startTime = (Num 1, Num 0), endTime = None, status = UNSET,
         parent = Some 0\<rparr>]) \<and>
   length exampleSpans \<le> 2 \<and>
   (2 :: nat) \<le> length [''main'', ''fn1''] \<and>
   map_of [(1 :: nat, 1 :: nat), (2, 2)] 2 = Some 2 \<and>
   list_all (distinctTick exampleConfig) exampleTicks \<and>
   0 < length (tracer (run exampleConfig exampleTicks newTracer)) \<and>
   endTime (tracer (run exampleConfig exampleTicks newTracer) ! 0) = None \<and>
   map_of (activeSpans (run exampleConfig exampleTicks newTracer)) 7 = Some [(''a'', 0)] \<and>
   map_of [(''a'', 0 :: nat)] ''a'' = Some 0"
proof -
  have d: "list_all (distinctTick exampleConfig) exampleTicks"
    by (simp add: exampleTicks_def exampleConfig_def functionNames_def shouldExclude_def)
  from open_spans_stay_in_their_table [of 0
      "[\<lparr>ts = Num 1000, stack = [''main'', ''fn1'']\<rparr>]" exampleSpans
      "[(1, 1), (2, 2)]" "[''main'', ''fn1'']" _ 2 exampleConfig exampleTicks 0]
    sampleLoop_example run_exampleTicks d
  show ?thesis by (simp add: exampleSpans_def)
qed

text \<open>
  The claim as the specification states it fails in the live sampler on
  \<^const>\<open>recursiveTicks\<close>. At the second tick the stack is \<^verbatim>\<open>m\<close>, \<^verbatim>\<open>a\<close>, \<^verbatim>\<open>a\<close>: the span of the
  second \<^verbatim>\<open>a\<close> (span 1) is stored in the slot of the first (span 0), which is not ended. At
  the third tick the stack is \<^verbatim>\<open>m\<close>, \<^verbatim>\<open>b\<close>: span 1 is ended, and the span of \<^verbatim>\<open>b\<close> (span 2)
  is started at the depth of span 0. Spans 0 and 2 are open together, and span 0 is in no
  table.
\<close>

theorem recursive_stack_counterexample:
  "run exampleConfig (take 4 recursiveTicks) newTracer =
     \<lparr>CAPStackSamplingTracer.samples =
        [(7, [\<lparr>ts = 1, stack = [''m''], asyncId = 7\<rparr>,
              \<lparr>ts = 2, stack = [''m'', ''a'', ''a''], asyncId = 7\<rparr>])],
      activeSpans = [(7, [(''a'', 1)])],
      tracer = [\<lparr>name = ''a'', startTime = 2, endTime = None, status = UNSET, parent = None\<rparr>,
                \<lparr>name = ''a'', startTime = 2, endTime = None, status = UNSET, parent = None\<rparr>],
      currentAsyncId = 7, enabled = True\<rparr> \<and>
   run exampleConfig recursiveTicks newTracer =
     \<lparr>CAPStackSamplingTracer.samples =
        [(7, [\<lparr>ts = 1, stack = [''m''], asyncId = 7\<rparr>,
              \<lparr>ts = 2, stack = [''m'', ''a'', ''a''], asyncId = 7\<rparr>,
              \<lparr>ts = 3, stack = [''m'', ''b''], asyncId = 7\<rparr>])],
      activeSpans = [(7, [(''b'', 2)])],
      tracer = [\<lparr>name = ''a'', startTime = 2, endTime = None, status = UNSET, parent = None\<rparr>,
                \<lparr>name = ''a'', startTime = 2, endTime = Some 3, status = OK, parent = None\<rparr>,
                \<lparr>name = ''b'', startTime = 3, endTime = None, status = UNSET, parent = None\<rparr>],
      currentAsyncId = 7, enabled = True\<rparr> \<and>
   endTime (tracer (run exampleConfig recursiveTicks newTracer) ! 0) = None \<and>
   map_of (activeSpans (run exampleConfig recursiveTicks newTracer)) 7 = Some [(''b'', 2)] \<and>
   map_of [(''b'', 2 :: nat)] ''a'' = None \<and> map_of [(''b'', 2 :: nat)] ''b'' \<noteq> Some 0"
  by (simp add: run_recursiveTicks run_recursiveTicks_two)

section \<open>The teardown of a context with a span outside its table\<close>


end
